theory Spec2Isabelle
  imports
    Main
    "HOL-Library.Sublist"
    "HOL-Library.AList"
    "HOL-Library.Multiset"
    "HOL-Library.Char_ord"
    "HOL-Library.List_Lexorder"
begin

section \<open>Strings and knowledge-base values\<close>

text \<open>
  A Python string is the list of the bytes of its UTF-8 encoding. The bytes of \<open>%\<close> and
  \<open>.\<close> occur in no other character's encoding, so matching and splitting on them is the
  same on bytes as on code points.
\<close>

text \<open>\<open>sep.join(xs)\<close> of Python.\<close>

fun join :: "string \<Rightarrow> string list \<Rightarrow> string" where
  "join sep [] = []"
| "join sep [x] = x"
| "join sep (x # y # ys) = x @ sep @ join sep (y # ys)"

text \<open>
  The knowledge base, and every record of one of its repeated groups, is an object read
  with \<open>getattr(obj, name, None)\<close>: a finite table from attribute names to values. A value
  is a string or a repeated group of records. \<open>py_bool\<close> is Python's truth test of the
  result of \<open>getattr\<close>: \<open>None\<close>, the empty string and the empty group are false.

  What the Python runtime itself does is a parameter of the model, the record \<open>python\<close>:
  \<open>lower\<close> is \<open>str.lower()\<close>, with Unicode's case mapping; \<open>str_iter\<close> gives what a \<open>for\<close>
  loop over a string visits, its characters, each as the table of what \<open>getattr\<close> finds on a
  character (Python's own attributes of \<open>str\<close>, such as the bound method \<open>upper\<close>); and
  \<open>set_slot\<close> gives the slot of a string in the hash table of a set, which decides the order
  in which the set is iterated. Every theorem holds for every such runtime. \<open>py_iter\<close> is
  what a \<open>for\<close> loop over a value visits: the records of a group, or the characters of a
  string.
\<close>

datatype kb_value = Str string | Group "(string \<times> kb_value) list list"

type_synonym kb_struct = "(string \<times> kb_value) list"

record python =
  lower :: "string \<Rightarrow> string"
  str_iter :: "string \<Rightarrow> kb_struct list"
  set_slot :: "string \<Rightarrow> nat"

definition getattr :: "kb_struct \<Rightarrow> string \<Rightarrow> kb_value option" where
  "getattr obj name = map_of obj name"

fun py_bool :: "kb_value option \<Rightarrow> bool" where
  "py_bool None = False"
| "py_bool (Some (Str s)) = (s \<noteq> [])"
| "py_bool (Some (Group g)) = (g \<noteq> [])"

fun py_iter :: "python \<Rightarrow> kb_value \<Rightarrow> kb_struct list" where
  "py_iter py (Group g) = g"
| "py_iter py (Str s) = str_iter py s"

text \<open>
  A runtime for the examples: \<open>ascii_lower\<close> is \<open>str.lower()\<close> on strings of ASCII
  characters; a character offers the bound method \<open>upper\<close>, which this code can observe
  only through its truth value and its text, so it stands here as that text; and two
  orders of iteration of a set, one that keeps the order of insertion and one that visits
  \<open>b\<close> first.
\<close>

definition ascii_lower_char :: "char \<Rightarrow> char" where
  "ascii_lower_char c =
     (let n = (of_char c :: nat) in if 65 \<le> n \<and> n \<le> 90 then char_of (n + 32) else c)"

definition ascii_lower :: "string \<Rightarrow> string" where
  "ascii_lower s = map ascii_lower_char s"

definition char_attributes :: "string \<Rightarrow> kb_struct list" where
  "char_attributes s = map (\<lambda>c. [(''upper'', Str ''<built-in method upper>'')]) s"

definition first_come :: "string \<Rightarrow> nat" where
  "first_come s = 0"

definition b_first :: "string \<Rightarrow> nat" where
  "b_first s = (if s = ''b'' then 0 else 1)"

definition example_python :: python where
  "example_python = \<lparr>lower = ascii_lower, str_iter = char_attributes, set_slot = first_come\<rparr>"

definition b_first_python :: python where
  "b_first_python = \<lparr>lower = ascii_lower, str_iter = char_attributes, set_slot = b_first\<rparr>"

section \<open>Regular expressions of the form \<open>d([^%]+?)d\<close>\<close>

text \<open>
  Both regular expressions of \<open>artifact_utils.py\<close> have the shape \<open>d([^%]+?)d\<close>, where the
  delimiter \<open>d\<close> is \<open>%\<close> (\<open>win_environ_regex\<close>) or \<open>%%\<close> (\<open>INTERPOLATED_REGEX\<close>). The group
  cannot contain a percent sign, so a match anchored at the start of \<open>s\<close> exists exactly
  when \<open>s\<close> starts with \<open>d\<close>, a non-empty run of other characters follows, and \<open>d\<close> follows
  that run. \<open>regex_match\<close> returns group 1 and the text after the match.
\<close>

definition win_environ_regex :: string where
  "win_environ_regex = ''%''"

definition INTERPOLATED_REGEX :: string where
  "INTERPOLATED_REGEX = ''%%''"

definition regex_match :: "string \<Rightarrow> string \<Rightarrow> (string \<times> string) option" where
  "regex_match d s =
     (if prefix d s then
        (let t = drop (length d) s;
             body = takeWhile (\<lambda>c. c \<noteq> CHR ''%'') t;
             rest = dropWhile (\<lambda>c. c \<noteq> CHR ''%'') t
         in if body \<noteq> [] \<and> prefix d rest then Some (body, drop (length d) rest) else None)
      else None)"

lemma regex_match_shorter:
  "regex_match d s = Some (body, rest) \<Longrightarrow> length rest < length s"
proof -
  assume m: "regex_match d s = Some (body, rest)"
  let ?t = "drop (length d) s"
  let ?P = "\<lambda>c. c \<noteq> CHR ''%''"
  from m have b: "takeWhile ?P ?t \<noteq> []" and r: "rest = drop (length d) (dropWhile ?P ?t)"
    by (auto simp: regex_match_def Let_def split: if_splits)
  have "length (takeWhile ?P ?t) + length (dropWhile ?P ?t) = length ?t"
    by (metis length_append takeWhile_dropWhile_id)
  moreover from b have "0 < length (takeWhile ?P ?t)" by simp
  ultimately have "length (dropWhile ?P ?t) < length ?t" by linarith
  with r show ?thesis by simp
qed

lemma regex_match_text:
  "regex_match d s = Some (body, rest) \<Longrightarrow> s = d @ body @ d @ rest"
proof -
  assume m: "regex_match d s = Some (body, rest)"
  let ?t = "drop (length d) s"
  let ?P = "\<lambda>c. c \<noteq> CHR ''%''"
  from m have p1: "prefix d s" and p2: "prefix d (dropWhile ?P ?t)"
    and b: "body = takeWhile ?P ?t" and r: "rest = drop (length d) (dropWhile ?P ?t)"
    by (auto simp: regex_match_def Let_def split: if_splits)
  from p1 have s: "s = d @ ?t" by (auto simp: prefix_def)
  from p2 r have "dropWhile ?P ?t = d @ rest" by (auto simp: prefix_def)
  with b have "?t = body @ d @ rest"
    by (metis takeWhile_dropWhile_id)
  with s show ?thesis by metis
qed

text \<open>
  A match object: where the match starts and ends in the searched string, and its group 1.
  \<open>finditer\<close> scans from left to right for non-overlapping matches, as \<open>re.finditer\<close> does;
  \<open>pos\<close> is the position of the unread text \<open>s\<close> in the searched string.
\<close>

record re_match =
  m_start :: nat
  m_end :: nat
  m_group1 :: string

function finditer_from :: "string \<Rightarrow> nat \<Rightarrow> string \<Rightarrow> re_match list" where
  "finditer_from d pos [] = []"
| "finditer_from d pos (c # cs) =
     (case regex_match d (c # cs) of
        Some (body, rest) \<Rightarrow>
          \<lparr>m_start = pos, m_end = pos + length d + length body + length d, m_group1 = body\<rparr>
            # finditer_from d (pos + length d + length body + length d) rest
      | None \<Rightarrow> finditer_from d (Suc pos) cs)"
  by pat_completeness auto
termination
  by (relation "measure (\<lambda>(d, pos, s). length s)") (auto dest: regex_match_shorter)

definition finditer :: "string \<Rightarrow> string \<Rightarrow> re_match list" where
  "finditer d data_string = finditer_from d 0 data_string"

text \<open>
  The same scan seen as a decomposition of the string: the text before a marker, the
  marker, and so on, ending with the text after the last marker. \<open>lit\<close> is the text read
  since the last marker.
\<close>

datatype token = Text string | Marker string

function split_markers :: "string \<Rightarrow> string \<Rightarrow> string \<Rightarrow> token list" where
  "split_markers d lit [] = [Text lit]"
| "split_markers d lit (c # cs) =
     (case regex_match d (c # cs) of
        Some (body, rest) \<Rightarrow> Text lit # Marker body # split_markers d [] rest
      | None \<Rightarrow> split_markers d (lit @ [c]) cs)"
  by pat_completeness auto
termination
  by (relation "measure (\<lambda>(d, lit, s). length s)") (auto dest: regex_match_shorter)

definition tokens :: "string \<Rightarrow> string \<Rightarrow> token list" where
  "tokens d s = split_markers d [] s"

fun token_source :: "string \<Rightarrow> token \<Rightarrow> string" where
  "token_source d (Text t) = t"
| "token_source d (Marker body) = d @ body @ d"

lemma split_markers_source:
  "concat (map (token_source d) (split_markers d lit s)) = lit @ s"
proof (induction d lit s rule: split_markers.induct)
  case (1 d lit)
  show ?case by simp
next
  case (2 d lit c cs)
  show ?case
  proof (cases "regex_match d (c # cs)")
    case None
    with 2 show ?thesis by simp
  next
    case (Some br)
    obtain body rest where br: "br = (body, rest)" by (cases br)
    have m: "regex_match d (c # cs) = Some (body, rest)" using Some br by simp
    have ih: "concat (map (token_source d) (split_markers d [] rest)) = rest"
      using 2(2)[OF m refl] by simp
    have "concat (map (token_source d) (split_markers d lit (c # cs)))
        = lit @ d @ body @ d @ rest"
      using m ih by simp
    also have "\<dots> = lit @ (c # cs)"
      using regex_match_text[OF m] by simp
    finally show ?thesis .
  qed
qed

lemma tokens_source: "concat (map (token_source d) (tokens d s)) = s"
  by (simp add: tokens_def split_markers_source)

section \<open>\<open>ExpandWindowsEnvironmentVariables\<close>\<close>

text \<open>
  The loop of \<open>ExpandWindowsEnvironmentVariables\<close>: for each match, the text between
  \<open>offset\<close> and the start of the match is appended to \<open>components\<close>, then either the
  knowledge-base value (when it is a non-empty string) or the marker as it was; \<open>offset\<close>
  moves to the end of the match. After the loop the final chunk is appended and the
  components are joined.
\<close>

definition slice :: "string \<Rightarrow> nat \<Rightarrow> nat \<Rightarrow> string" where
  "slice s a b = take (b - a) (drop a s)"

definition expand_match ::
  "python \<Rightarrow> string \<Rightarrow> kb_struct \<Rightarrow> re_match \<Rightarrow> string list \<times> nat \<Rightarrow> string list \<times> nat" where
  "expand_match py data_string knowledge_base m = (\<lambda>(components, offset).
     (let components = components @ [slice data_string offset (m_start m)];
          kb_value = getattr knowledge_base (''environ_'' @ lower py (m_group1 m))
      in (case kb_value of
            Some (Str v) \<Rightarrow>
              if v \<noteq> [] then (components @ [v], m_end m)
              else (components @ [''%'' @ m_group1 m @ ''%''], m_end m)
          | _ \<Rightarrow> (components @ [''%'' @ m_group1 m @ ''%''], m_end m))))"

definition ExpandWindowsEnvironmentVariables :: "python \<Rightarrow> string \<Rightarrow> kb_struct \<Rightarrow> string" where
  "ExpandWindowsEnvironmentVariables py data_string knowledge_base =
     (let (components, offset) =
            fold (expand_match py data_string knowledge_base)
              (finditer win_environ_regex data_string) ([], 0)
      in concat (components @ [drop offset data_string]))"

text \<open>
  What the claim says of one part of the string: text outside markers stays; a marker
  \<open>%name%\<close> becomes the value of \<open>environ_<lowercased name>\<close> when that attribute is a
  non-empty string, and stays \<open>%name%\<close> otherwise.
\<close>

definition environ_value :: "python \<Rightarrow> kb_struct \<Rightarrow> string \<Rightarrow> string option" where
  "environ_value py knowledge_base name =
     (case getattr knowledge_base (''environ_'' @ lower py name) of
        Some (Str v) \<Rightarrow> if v = [] then None else Some v
      | _ \<Rightarrow> None)"

fun expand_token :: "python \<Rightarrow> kb_struct \<Rightarrow> token \<Rightarrow> string" where
  "expand_token py knowledge_base (Text t) = t"
| "expand_token py knowledge_base (Marker name) =
     (case environ_value py knowledge_base name of
        Some v \<Rightarrow> v
      | None \<Rightarrow> ''%'' @ name @ ''%'')"

lemma expand_match_loop:
  "data_string = pre @ lit @ s \<Longrightarrow> offset = length pre \<Longrightarrow> pos = length pre + length lit \<Longrightarrow>
   (case fold (expand_match py data_string kb) (finditer_from d pos s) (components, offset) of
      (components', offset') \<Rightarrow> components' @ [drop offset' data_string])
   = components @ map (expand_token py kb) (split_markers d lit s)"
proof (induction d pos s arbitrary: pre lit components offset rule: finditer_from.induct)
  case (1 d pos)
  then show ?case by simp
next
  case (2 d pos c cs)
  show ?case
  proof (cases "regex_match d (c # cs)")
    case None
    have "data_string = pre @ (lit @ [c]) @ cs" using 2(3) by simp
    from 2(1)[OF None this 2(4)] 2(5) None show ?thesis by simp
  next
    case (Some br)
    obtain body rest where br: "br = (body, rest)" by (cases br)
    have m: "regex_match d (c # cs) = Some (body, rest)" using Some br by simp
    have whole: "c # cs = d @ body @ d @ rest" using regex_match_text[OF m] .
    let ?pre = "pre @ lit @ d @ body @ d"
    let ?e = "pos + length d + length body + length d"
    let ?mt = "\<lparr>m_start = pos, m_end = ?e, m_group1 = body\<rparr>"
    have dd: "data_string = ?pre @ [] @ rest" using 2(3) whole by simp
    have sl: "slice data_string offset pos = lit"
      using 2(3,4,5) by (simp add: slice_def)
    have step: "expand_match py data_string kb ?mt (components, offset)
        = (components @ [lit, expand_token py kb (Marker body)], ?e)"
      using sl
      by (auto simp: expand_match_def environ_value_def Let_def
               split: option.splits kb_value.splits)
    have e: "?e = length ?pre" using 2(5) by simp
    have e': "?e = length ?pre + length ([] :: string)" using 2(5) by simp
    have ih: "(case fold (expand_match py data_string kb) (finditer_from d ?e rest)
                 (components @ [lit, expand_token py kb (Marker body)], ?e) of
               (components', offset') \<Rightarrow> components' @ [drop offset' data_string])
          = (components @ [lit, expand_token py kb (Marker body)])
              @ map (expand_token py kb) (split_markers d [] rest)"
      by (rule 2(2)[OF m refl dd refl e', folded e])
    show ?thesis using m step ih by simp
  qed
qed

text \<open>
  C10. \<open>ExpandWindowsEnvironmentVariables\<close> splits the string into the text outside
  markers and the \<open>%name%\<close> markers, in order (joined back, these parts are the string
  itself); the result is the same parts joined, where a marker is replaced by the value
  of the attribute \<open>environ_<lowercased name>\<close> exactly when that attribute exists and
  is a non-empty string, and every other part, a marker in its original case or text
  outside markers, is reproduced verbatim.
\<close>

theorem ExpandWindowsEnvironmentVariables_parts:
  "ExpandWindowsEnvironmentVariables py data_string knowledge_base
     = concat (map (expand_token py knowledge_base) (tokens win_environ_regex data_string))
   \<and> concat (map (token_source win_environ_regex) (tokens win_environ_regex data_string))
     = data_string
   \<and> (\<forall>name. expand_token py knowledge_base (Marker name) =
        (case getattr knowledge_base (''environ_'' @ lower py name) of
           Some (Str v) \<Rightarrow> if v = [] then ''%'' @ name @ ''%'' else v
         | _ \<Rightarrow> ''%'' @ name @ ''%''))
   \<and> (\<forall>t. expand_token py knowledge_base (Text t) = t)"
proof -
  have "data_string = [] @ [] @ data_string" by simp
  from expand_match_loop[OF this, of 0 0 py knowledge_base win_environ_regex "[]"]
  have "concat (case fold (expand_match py data_string knowledge_base)
                  (finditer_from win_environ_regex 0 data_string) ([], 0) of
                (components', offset') \<Rightarrow> components' @ [drop offset' data_string])
      = concat (map (expand_token py knowledge_base) (split_markers win_environ_regex [] data_string))"
    by simp
  then have "ExpandWindowsEnvironmentVariables py data_string knowledge_base
     = concat (map (expand_token py knowledge_base) (tokens win_environ_regex data_string))"
    by (simp add: ExpandWindowsEnvironmentVariables_def finditer_def tokens_def
          split: prod.splits)
  moreover have "\<forall>name. expand_token py knowledge_base (Marker name) =
        (case getattr knowledge_base (''environ_'' @ lower py name) of
           Some (Str v) \<Rightarrow> if v = [] then ''%'' @ name @ ''%'' else v
         | _ \<Rightarrow> ''%'' @ name @ ''%'')"
    by (auto simp: environ_value_def split: option.splits kb_value.splits)
  ultimately show ?thesis
    by (simp add: tokens_source)
qed

definition example_windows_kb :: kb_struct where
  "example_windows_kb =
     [(''environ_systemroot'', Str ''C:/Windows''), (''environ_foo'', Str []),
      (''environ_x'', Group [])]"

theorem ExpandWindowsEnvironmentVariables_parts_witness:
  "ExpandWindowsEnvironmentVariables example_python ''%SystemRoot%/Logs/%Foo%%%x%'' example_windows_kb
     = ''C:/Windows/Logs/%Foo%%%x%''
   \<and> tokens win_environ_regex ''%SystemRoot%/Logs/%Foo%%%x%''
     = [Text [], Marker ''SystemRoot'', Text ''/Logs/'', Marker ''Foo'', Text ''%'',
        Marker ''x'', Text []]"
proof -
  have t: "tokens win_environ_regex ''%SystemRoot%/Logs/%Foo%%%x%''
     = [Text [], Marker ''SystemRoot'', Text ''/Logs/'', Marker ''Foo'', Text ''%'',
        Marker ''x'', Text []]"
    by (simp add: tokens_def regex_match_def win_environ_regex_def)
  have e: "map (expand_token example_python example_windows_kb)
      [Text [], Marker ''SystemRoot'', Text ''/Logs/'', Marker ''Foo'', Text ''%'',
        Marker ''x'', Text []]
     = [[], ''C:/Windows'', ''/Logs/'', ''%Foo%'', ''%'', ''%x%'', []]"
    by code_simp
  from ExpandWindowsEnvironmentVariables_parts
    [of example_python "''%SystemRoot%/Logs/%Foo%%%x%''" example_windows_kb] t e
  show ?thesis by simp
qed

section \<open>The in-memory audit-event store\<close>

text \<open>
  Events are objects: the store \<open>self.events\<close> and the caller hold references to them, and
  \<open>objects\<close> maps a reference to the object it points to. An event has a \<open>timestamp\<close>
  (microseconds since the epoch) and further fields, kept as the extension of the record.
  The lock of \<open>utils.Synchronized\<close> makes each method one step. Two things the methods use
  are not among the sources and are parameters: \<open>Copy\<close>, the method \<open>event.Copy()\<close>, which
  from the objects and a reference returns the reference of the copy and the objects after
  the call, and \<open>Now\<close>, the value that \<open>rdfvalue.RDFDatetime.Now()\<close> returns at the call.
\<close>

type_synonym ref = nat

record audit_event =
  timestamp :: nat

record 'e memory =
  objects :: "ref \<Rightarrow> 'e"
  events :: "ref list"

definition ReadAllAuditEvents :: "'a audit_event_scheme memory \<Rightarrow> ref list" where
  "ReadAllAuditEvents self = sort_key (\<lambda>event. timestamp (objects self event)) (events self)"

definition WriteAuditEvent ::
  "((ref \<Rightarrow> 'a audit_event_scheme) \<Rightarrow> ref \<Rightarrow> ref \<times> (ref \<Rightarrow> 'a audit_event_scheme)) \<Rightarrow> nat \<Rightarrow>
   ref \<Rightarrow> 'a audit_event_scheme memory \<Rightarrow> 'a audit_event_scheme memory" where
  "WriteAuditEvent Copy Now event self =
     (let (event, objs) = Copy (objects self) event;
          objs = objs(event := (objs event)\<lparr>timestamp := Now\<rparr>)
      in self\<lparr>objects := objs, events := events self @ [event]\<rparr>)"

text \<open>
  C8. \<open>ReadAllAuditEvents\<close> returns the stored events (the same references, each as often
  as it is stored) sorted by their timestamp field; \<open>WriteAuditEvent\<close> appends exactly one
  event to the store, the copy, and its timestamp is the current time of the write.
\<close>

theorem audit_events_read_sorted_write_appends:
  "sorted (map (\<lambda>event. timestamp (objects self event)) (ReadAllAuditEvents self))
   \<and> mset (ReadAllAuditEvents self) = mset (events self)
   \<and> events (WriteAuditEvent Copy Now event self) = events self @ [fst (Copy (objects self) event)]
   \<and> timestamp (objects (WriteAuditEvent Copy Now event self) (fst (Copy (objects self) event)))
       = Now"
proof -
  have "sorted (map (\<lambda>event. timestamp (objects self event)) (ReadAllAuditEvents self))"
    by (simp add: ReadAllAuditEvents_def)
  moreover have "mset (ReadAllAuditEvents self) = mset (events self)"
    by (simp add: ReadAllAuditEvents_def)
  moreover have "events (WriteAuditEvent Copy Now event self)
      = events self @ [fst (Copy (objects self) event)]"
    by (simp add: WriteAuditEvent_def Let_def split: prod.splits)
  moreover have "timestamp (objects (WriteAuditEvent Copy Now event self)
      (fst (Copy (objects self) event))) = Now"
    by (simp add: WriteAuditEvent_def Let_def split: prod.splits)
  ultimately show ?thesis by blast
qed

text \<open>
  A store for the examples: three event objects with a user name besides the timestamp,
  two of them stored; \<open>copy_to_3\<close> is a \<open>Copy\<close> that puts the copy at the unused reference 3.
\<close>

record named_event = audit_event +
  username :: string

definition example_objects :: "ref \<Rightarrow> named_event" where
  "example_objects r =
     (if r = 0 then \<lparr>timestamp = 50, username = ''alice''\<rparr>
      else if r = 1 then \<lparr>timestamp = 20, username = ''bob''\<rparr>
      else \<lparr>timestamp = 0, username = ''carol''\<rparr>)"

definition example_memory :: "named_event memory" where
  "example_memory = \<lparr>objects = example_objects, events = [0, 1]\<rparr>"

definition copy_to_3 :: "(ref \<Rightarrow> named_event) \<Rightarrow> ref \<Rightarrow> ref \<times> (ref \<Rightarrow> named_event)" where
  "copy_to_3 objs event = (3, objs(3 := objs event))"

theorem audit_events_read_sorted_write_appends_witness:
  "ReadAllAuditEvents example_memory = [1, 0]
   \<and> events (WriteAuditEvent copy_to_3 70 2 example_memory) = [0, 1, 3]
   \<and> objects (WriteAuditEvent copy_to_3 70 2 example_memory) 3
       = \<lparr>timestamp = 70, username = ''carol''\<rparr>"
proof -
  have r: "ReadAllAuditEvents example_memory = [1, 0]"
    by (simp add: ReadAllAuditEvents_def example_memory_def example_objects_def)
  have o: "objects (WriteAuditEvent copy_to_3 70 2 example_memory) 3
       = \<lparr>timestamp = 70, username = ''carol''\<rparr>"
    by (simp add: WriteAuditEvent_def copy_to_3_def example_memory_def example_objects_def)
  from audit_events_read_sorted_write_appends[of example_memory copy_to_3 70 2] r o
  show ?thesis by (simp add: copy_to_3_def example_memory_def)
qed

text \<open>
  C9. \<open>WriteAuditEvent\<close> does not mutate the caller's event object: when \<open>Copy\<close> returns
  another object than the caller's and leaves the caller's object as it was, the caller's
  object, its timestamp included, is after the call what it was before. The timestamp is
  written to the copy, and the copy is what the store holds.
\<close>

theorem WriteAuditEvent_keeps_callers_event:
  assumes "Copy (objects self) event = (event', objs')"
    and "event' \<noteq> event"
    and "objs' event = objects self event"
  shows "objects (WriteAuditEvent Copy Now event self) event = objects self event
         \<and> last (events (WriteAuditEvent Copy Now event self)) = event'"
  using assms by (simp add: WriteAuditEvent_def)

theorem WriteAuditEvent_keeps_callers_event_witness:
  "copy_to_3 (objects example_memory) 2 = (3, (objects example_memory)(3 := objects example_memory 2))
   \<and> (3::nat) \<noteq> 2
   \<and> objects (WriteAuditEvent copy_to_3 70 2 example_memory) 2
       = \<lparr>timestamp = 0, username = ''carol''\<rparr>
   \<and> last (events (WriteAuditEvent copy_to_3 70 2 example_memory)) = 3"
proof -
  have c: "copy_to_3 (objects example_memory) 2
      = (3, (objects example_memory)(3 := objects example_memory 2))"
    by (simp add: copy_to_3_def)
  have n: "(3::nat) \<noteq> 2" by simp
  have k: "((objects example_memory)(3 := objects example_memory 2)) 2 = objects example_memory 2"
    by simp
  from WriteAuditEvent_keeps_callers_event[of copy_to_3 example_memory 2 3
      "(objects example_memory)(3 := objects example_memory 2)" 70, OF c n k] c
  show ?thesis by (simp add: example_memory_def example_objects_def)
qed

section \<open>The interpolation module\<close>

text \<open>
  \<open>InterpolateKbAttributes\<close> works through the class \<open>Interpolator\<close> of
  \<open>grr_response_core.lib.interpolation\<close>, which is not among the sources. What its scanner
  finds in a pattern (the identifiers of the scalar placeholders, of the scopes, and of the
  fields requested from a scope) and what its expander produces from the bindings are
  parameters of the model, the record \<open>interpolation\<close>. The object itself is the pattern
  with the bindings it was given, in the order of the calls; \<open>BindVar\<close> and \<open>BindScope\<close>
  record a binding and raise nothing. \<open>Vars\<close>, \<open>Scopes\<close> and \<open>ScopeVars\<close> return sets:
  lists without duplicates, which the loops visit in the order of the list. Which names are
  bound and which are missing does not depend on that order.
\<close>

record interpolation =
  scan_vars :: "string \<Rightarrow> string list"
  scan_scopes :: "string \<Rightarrow> string list"
  scan_scope_vars :: "string \<Rightarrow> string \<Rightarrow> string list"
  expand :: "string \<Rightarrow> (string \<times> kb_value) list \<Rightarrow> (string \<times> kb_struct) list \<Rightarrow> string list"

record interpolator =
  ip_pattern :: string
  var_bindings :: "(string \<times> kb_value) list"
  scope_bindings :: "(string \<times> kb_struct) list"

definition Interpolator :: "string \<Rightarrow> interpolator" where
  "Interpolator pattern = \<lparr>ip_pattern = pattern, var_bindings = [], scope_bindings = []\<rparr>"

definition Vars :: "interpolation \<Rightarrow> interpolator \<Rightarrow> string list" where
  "Vars ip self = remdups (scan_vars ip (ip_pattern self))"

definition Scopes :: "interpolation \<Rightarrow> interpolator \<Rightarrow> string list" where
  "Scopes ip self = remdups (scan_scopes ip (ip_pattern self))"

definition ScopeVars :: "interpolation \<Rightarrow> interpolator \<Rightarrow> string \<Rightarrow> string list" where
  "ScopeVars ip self scope_id = remdups (scan_scope_vars ip (ip_pattern self) scope_id)"

definition BindVar :: "interpolator \<Rightarrow> string \<Rightarrow> kb_value \<Rightarrow> interpolator" where
  "BindVar self var_id val = self\<lparr>var_bindings := var_bindings self @ [(var_id, val)]\<rparr>"

definition BindScope :: "interpolator \<Rightarrow> string \<Rightarrow> kb_struct \<Rightarrow> interpolator" where
  "BindScope self scope_id bindings =
     self\<lparr>scope_bindings := scope_bindings self @ [(scope_id, bindings)]\<rparr>"

definition Interpolate :: "interpolation \<Rightarrow> interpolator \<Rightarrow> string list" where
  "Interpolate ip self = expand ip (ip_pattern self) (var_bindings self) (scope_bindings self)"

section \<open>\<open>InterpolateKbAttributes\<close>\<close>

text \<open>
  \<open>missing_attr_names\<close> is a Python set of strings: a list without duplicates, to which
  \<open>set_add\<close> adds. Python does not fix the order in which \<open>join\<close> visits a set; CPython
  visits the slots of its hash table, and \<open>set_iter\<close> visits the elements by the slot that
  the runtime gives each string.
\<close>

definition set_add :: "string \<Rightarrow> string list \<Rightarrow> string list" where
  "set_add x xs = (if x \<in> set xs then xs else xs @ [x])"

definition set_iter :: "(string \<Rightarrow> nat) \<Rightarrow> string list \<Rightarrow> string list" where
  "set_iter slot xs = sort_key slot xs"

datatype error = KnowledgeBaseInterpolationError string

text \<open>The body of the first loop, over \<open>interpolator.Vars()\<close>.\<close>

definition bind_var ::
  "python \<Rightarrow> kb_struct \<Rightarrow> string \<Rightarrow> interpolator \<times> string list \<Rightarrow> interpolator \<times> string list" where
  "bind_var py knowledge_base vid = (\<lambda>(interpolator, missing_attr_names).
     (let attr_name = lower py vid;
          val = getattr knowledge_base attr_name
      in if \<not> py_bool val then (interpolator, set_add attr_name missing_attr_names)
         else (BindVar interpolator attr_name (the val), missing_attr_names)))"

text \<open>
  The innermost loop, over \<open>interpolator.ScopeVars(scope_id)\<close>, fills the dictionary
  \<open>bindings\<close> of one record.
\<close>

definition struct_bindings :: "python \<Rightarrow> kb_struct \<Rightarrow> string list \<Rightarrow> kb_struct" where
  "struct_bindings py kb_struct var_ids =
     fold (\<lambda>var_id bindings.
            (let attr_name = lower py var_id;
                 val = getattr kb_struct attr_name
             in if py_bool val then AList.update var_id (the val) bindings else bindings))
       var_ids []"

text \<open>The body of the loop over the records of a group.\<close>

definition bind_struct ::
  "python \<Rightarrow> interpolation \<Rightarrow> string \<Rightarrow> kb_struct \<Rightarrow> interpolator \<times> bool \<Rightarrow> interpolator \<times> bool" where
  "bind_struct py ip scope_id kb_struct = (\<lambda>(interpolator, bound).
     (let bindings = struct_bindings py kb_struct (ScopeVars ip interpolator scope_id)
      in if length bindings = length (ScopeVars ip interpolator scope_id)
         then (BindScope interpolator scope_id bindings, True)
         else (interpolator, bound)))"

text \<open>The body of the second loop, over \<open>interpolator.Scopes()\<close>.\<close>

definition bind_scope ::
  "python \<Rightarrow> interpolation \<Rightarrow> kb_struct \<Rightarrow> string \<Rightarrow> interpolator \<times> string list
   \<Rightarrow> interpolator \<times> string list" where
  "bind_scope py ip knowledge_base scope_id = (\<lambda>(interpolator, missing_attr_names).
     (let scope_name = lower py scope_id;
          kb_structs = getattr knowledge_base scope_name
      in if \<not> py_bool kb_structs then (interpolator, set_add scope_name missing_attr_names)
         else
           (let (interpolator, bound) =
                  fold (bind_struct py ip scope_id) (py_iter py (the kb_structs)) (interpolator, False)
            in if \<not> bound then (interpolator, set_add scope_name missing_attr_names)
               else (interpolator, missing_attr_names))))"

text \<open>Both loops: the interpolator with its bindings, and the set of missing names.\<close>

definition resolve :: "python \<Rightarrow> interpolation \<Rightarrow> string \<Rightarrow> kb_struct \<Rightarrow> interpolator \<times> string list" where
  "resolve py ip pattern knowledge_base =
     (let interpolator = Interpolator pattern;
          state = fold (bind_var py knowledge_base) (Vars ip interpolator) (interpolator, [])
      in fold (bind_scope py ip knowledge_base) (Scopes ip (fst state)) state)"

definition missing_message :: "python \<Rightarrow> string list \<Rightarrow> string" where
  "missing_message py missing_attr_names =
     ''Some attributes could not be located in the knowledgebase: ''
       @ join '', '' (set_iter (set_slot py) missing_attr_names)"

text \<open>
  The result of a call is what was logged with \<open>logging.error\<close>, and either the exception
  raised or the list of the strings yielded.
\<close>

definition InterpolateKbAttributes ::
  "python \<Rightarrow> interpolation \<Rightarrow> string \<Rightarrow> kb_struct \<Rightarrow> bool
   \<Rightarrow> string list \<times> (error + string list)" where
  "InterpolateKbAttributes py ip pattern knowledge_base ignore_errors =
     (let (interpolator, missing_attr_names) = resolve py ip pattern knowledge_base
      in if missing_attr_names \<noteq> [] then
           (let message = missing_message py missing_attr_names
            in if \<not> ignore_errors then ([], Inl (KnowledgeBaseInterpolationError message))
               else ([message], Inr []))
         else ([], Inr (Interpolate ip interpolator)))"

text \<open>
  \<open>InterpolateListKbAttributes\<close>: \<open>extend\<close> consumes the generator of each element; an
  exception raised there ends the loop and is the outcome of the call.
\<close>

fun interpolate_elements ::
  "python \<Rightarrow> interpolation \<Rightarrow> kb_struct \<Rightarrow> bool \<Rightarrow> string list \<Rightarrow> string list
   \<Rightarrow> string list \<times> (error + string list)" where
  "interpolate_elements py ip knowledge_base ignore_errors [] interpolated_list =
     ([], Inr interpolated_list)"
| "interpolate_elements py ip knowledge_base ignore_errors (element # rest)
     interpolated_list =
     (case InterpolateKbAttributes py ip element knowledge_base ignore_errors of
        (logged, Inl e) \<Rightarrow> (logged, Inl e)
      | (logged, Inr strings) \<Rightarrow>
          (case interpolate_elements py ip knowledge_base ignore_errors rest
                  (interpolated_list @ strings) of
             (logged', outcome) \<Rightarrow> (logged @ logged', outcome)))"

definition InterpolateListKbAttributes ::
  "python \<Rightarrow> interpolation \<Rightarrow> string list \<Rightarrow> kb_struct \<Rightarrow> bool
   \<Rightarrow> string list \<times> (error + string list)" where
  "InterpolateListKbAttributes py ip input_list knowledge_base ignore_errors =
     interpolate_elements py ip knowledge_base ignore_errors input_list []"

section \<open>The scanner and the expander of the specification\<close>

text \<open>
  Modelled from the spec: the Placeholder Scanner and the Expander of the interpolation
  module, which is not among the sources. A marker is a match of \<open>INTERPOLATED_REGEX\<close>; its
  body is split on the first dot into at most two segments: one segment is a scalar name,
  two are a scope name and a field name; the extracted identifiers are lower-cased with
  \<open>low\<close>, which for the scanner of the spec is \<open>str.lower()\<close>. The expander substitutes the
  bound scalars and, for every combination of one accepted record per scope of the pattern
  (the product over the scopes, each with its records in the order they were bound), the
  fields of those records. A marker with no binding is left as it is. \<open>group_text\<close> is the
  text of a bound group, on which the spec is silent: a parameter.
\<close>

datatype reference = VarRef string | ScopeRef string string

definition marker_reference :: "(string \<Rightarrow> string) \<Rightarrow> string \<Rightarrow> reference" where
  "marker_reference low body =
     (let name = takeWhile (\<lambda>c. c \<noteq> CHR ''.'') body;
          rest = dropWhile (\<lambda>c. c \<noteq> CHR ''.'') body
      in if rest = [] then VarRef (low name) else ScopeRef (low name) (low (tl rest)))"

fun token_references :: "(string \<Rightarrow> string) \<Rightarrow> token \<Rightarrow> reference list" where
  "token_references low (Text t) = []"
| "token_references low (Marker body) = [marker_reference low body]"

definition references :: "(string \<Rightarrow> string) \<Rightarrow> string \<Rightarrow> reference list" where
  "references low pattern = concat (map (token_references low) (tokens INTERPOLATED_REGEX pattern))"

fun var_names :: "reference \<Rightarrow> string list" where
  "var_names (VarRef name) = [name]"
| "var_names (ScopeRef scope field) = []"

fun scope_names :: "reference \<Rightarrow> string list" where
  "scope_names (VarRef name) = []"
| "scope_names (ScopeRef scope field) = [scope]"

fun scope_fields :: "string \<Rightarrow> reference \<Rightarrow> string list" where
  "scope_fields scope_id (VarRef name) = []"
| "scope_fields scope_id (ScopeRef scope field) = (if scope = scope_id then [field] else [])"

definition Scan_vars :: "(string \<Rightarrow> string) \<Rightarrow> string \<Rightarrow> string list" where
  "Scan_vars low pattern = concat (map var_names (references low pattern))"

definition Scan_scopes :: "(string \<Rightarrow> string) \<Rightarrow> string \<Rightarrow> string list" where
  "Scan_scopes low pattern = concat (map scope_names (references low pattern))"

definition Scan_scope_fields :: "(string \<Rightarrow> string) \<Rightarrow> string \<Rightarrow> string \<Rightarrow> string list" where
  "Scan_scope_fields low pattern scope_id = concat (map (scope_fields scope_id) (references low pattern))"

fun value_text :: "(kb_struct list \<Rightarrow> string) \<Rightarrow> kb_value \<Rightarrow> string" where
  "value_text group_text (Str s) = s"
| "value_text group_text (Group g) = group_text g"

fun substitute ::
  "(string \<Rightarrow> string) \<Rightarrow> (kb_struct list \<Rightarrow> string) \<Rightarrow> (string \<times> kb_value) list \<Rightarrow> (string \<times> kb_struct) list
   \<Rightarrow> token \<Rightarrow> string" where
  "substitute low group_text bindings combination (Text t) = t"
| "substitute low group_text bindings combination (Marker body) =
     (case marker_reference low body of
        VarRef name \<Rightarrow>
          (case map_of bindings name of
             Some v \<Rightarrow> value_text group_text v
           | None \<Rightarrow> ''%%'' @ body @ ''%%'')
      | ScopeRef scope field \<Rightarrow>
          (case map_of combination scope of
             Some record_bindings \<Rightarrow>
               (case map_of record_bindings field of
                  Some v \<Rightarrow> value_text group_text v
                | None \<Rightarrow> ''%%'' @ body @ ''%%'')
           | None \<Rightarrow> ''%%'' @ body @ ''%%''))"

definition Expand ::
  "(string \<Rightarrow> string) \<Rightarrow> (kb_struct list \<Rightarrow> string) \<Rightarrow> string \<Rightarrow> (string \<times> kb_value) list
   \<Rightarrow> (string \<times> kb_struct) list \<Rightarrow> string list" where
  "Expand low group_text pattern bindings accepted_bindings =
     map (\<lambda>combination.
            concat (map (substitute low group_text bindings combination)
                      (tokens INTERPOLATED_REGEX pattern)))
       (product_lists
          (map (\<lambda>scope. filter (\<lambda>b. fst b = scope) accepted_bindings)
             (remdups (Scan_scopes low pattern))))"

definition spec_interpolation :: "(string \<Rightarrow> string) \<Rightarrow> (kb_struct list \<Rightarrow> string) \<Rightarrow> interpolation" where
  "spec_interpolation low group_text =
     \<lparr>scan_vars = Scan_vars low, scan_scopes = Scan_scopes low, scan_scope_vars = Scan_scope_fields low,
      expand = Expand low group_text\<rparr>"

section \<open>Properties of the two loops\<close>

lemma set_fold_set_add: "set (fold set_add xs ys) = set xs \<union> set ys"
  by (induction xs arbitrary: ys) (auto simp: set_add_def)

lemma distinct_fold_set_add: "distinct ys \<Longrightarrow> distinct (fold set_add xs ys)"
  by (induction xs arbitrary: ys) (auto simp: set_add_def)

lemma fold_set_add_Nil: "fold set_add xs ys = [] \<longleftrightarrow> xs = [] \<and> ys = []"
  by (metis set_fold_set_add set_empty Un_empty)

lemma update_absent: "k \<notin> fst ` set al \<Longrightarrow> AList.update k v al = al @ [(k, v)]"
  by (induction al) auto

text \<open>What a record offers for the requested fields.\<close>

definition satisfies :: "python \<Rightarrow> kb_struct \<Rightarrow> string list \<Rightarrow> bool" where
  "satisfies py kb_struct var_ids =
     list_all (\<lambda>var_id. py_bool (getattr kb_struct (lower py var_id))) var_ids"

lemma fold_bindings:
  "distinct var_ids \<Longrightarrow> set var_ids \<inter> fst ` set acc = {} \<Longrightarrow>
   fold (\<lambda>var_id bindings.
          (let attr_name = lower py var_id;
               val = getattr kb_struct attr_name
           in if py_bool val then AList.update var_id (the val) bindings else bindings))
     var_ids acc
   = acc @ map (\<lambda>var_id. (var_id, the (getattr kb_struct (lower py var_id))))
             (filter (\<lambda>var_id. py_bool (getattr kb_struct (lower py var_id))) var_ids)"
proof (induction var_ids arbitrary: acc)
  case Nil
  show ?case by simp
next
  case (Cons v vs)
  show ?case
  proof (cases "py_bool (getattr kb_struct (lower py v))")
    case True
    have a: "v \<notin> fst ` set acc" using Cons.prems by auto
    have "set vs \<inter> fst ` set (acc @ [(v, the (getattr kb_struct (lower py v)))]) = {}"
      using Cons.prems by auto
    from Cons.IH[OF _ this] Cons.prems True update_absent[OF a]
    show ?thesis by (simp add: Let_def)
  next
    case False
    have "set vs \<inter> fst ` set acc = {}" using Cons.prems by auto
    from Cons.IH[OF _ this] Cons.prems False show ?thesis by (simp add: Let_def)
  qed
qed

lemma struct_bindings_eq:
  "distinct var_ids \<Longrightarrow>
   struct_bindings py kb_struct var_ids
   = map (\<lambda>var_id. (var_id, the (getattr kb_struct (lower py var_id))))
       (filter (\<lambda>var_id. py_bool (getattr kb_struct (lower py var_id))) var_ids)"
  using fold_bindings[of var_ids "[]" py kb_struct] by (simp add: struct_bindings_def)

lemma length_filter_eq_iff: "length (filter P xs) = length xs \<longleftrightarrow> (\<forall>x\<in>set xs. P x)"
proof
  assume "length (filter P xs) = length xs"
  then show "\<forall>x\<in>set xs. P x"
    by (metis length_filter_less less_irrefl)
next
  assume "\<forall>x\<in>set xs. P x"
  then show "length (filter P xs) = length xs" by simp
qed

lemma struct_bindings_complete:
  "distinct var_ids \<Longrightarrow>
   length (struct_bindings py kb_struct var_ids) = length var_ids \<longleftrightarrow> satisfies py kb_struct var_ids"
  by (simp add: struct_bindings_eq length_filter_eq_iff satisfies_def list_all_iff)

lemma struct_bindings_lookup:
  "distinct var_ids \<Longrightarrow> satisfies py kb_struct var_ids \<Longrightarrow> f \<in> set var_ids \<Longrightarrow>
   map_of (struct_bindings py kb_struct var_ids) f = getattr kb_struct (lower py f)
   \<and> py_bool (getattr kb_struct (lower py f))"
proof -
  assume d: "distinct var_ids" and s: "satisfies py kb_struct var_ids" and f: "f \<in> set var_ids"
  from s have all: "\<forall>v\<in>set var_ids. py_bool (getattr kb_struct (lower py v))"
    by (simp add: satisfies_def list_all_iff)
  then have "filter (\<lambda>v. py_bool (getattr kb_struct (lower py v))) var_ids = var_ids" by simp
  with d have e: "struct_bindings py kb_struct var_ids
      = map (\<lambda>v. (v, the (getattr kb_struct (lower py v)))) var_ids"
    by (simp add: struct_bindings_eq)
  from all f have t: "py_bool (getattr kb_struct (lower py f))" by blast
  then obtain v where v: "getattr kb_struct (lower py f) = Some v"
    by (cases "getattr kb_struct (lower py f)") auto
  have "map_of (map (\<lambda>v. (v, the (getattr kb_struct (lower py v)))) var_ids) f
      = Some (the (getattr kb_struct (lower py f)))"
    using f by (induction var_ids) auto
  with e v t show ?thesis by simp
qed

lemma ScopeVars_BindScope [simp]:
  "ScopeVars ip (BindScope self s b) scope_id = ScopeVars ip self scope_id"
  by (simp add: ScopeVars_def BindScope_def)

lemma distinct_ScopeVars [simp]: "distinct (ScopeVars ip self scope_id)"
  by (simp add: ScopeVars_def)

lemma fold_bind_struct:
  "fold (bind_struct py ip scope_id) structs (self, bound)
   = (self\<lparr>scope_bindings := scope_bindings self
            @ map (\<lambda>s. (scope_id, struct_bindings py s (ScopeVars ip self scope_id)))
                (filter (\<lambda>s. satisfies py s (ScopeVars ip self scope_id)) structs)\<rparr>,
      bound \<or> list_ex (\<lambda>s. satisfies py s (ScopeVars ip self scope_id)) structs)"
proof (induction structs arbitrary: self bound)
  case Nil
  show ?case by simp
next
  case (Cons s structs)
  show ?case
  proof (cases "satisfies py s (ScopeVars ip self scope_id)")
    case True
    then have step: "bind_struct py ip scope_id s (self, bound)
        = (BindScope self scope_id (struct_bindings py s (ScopeVars ip self scope_id)), True)"
      by (simp add: bind_struct_def struct_bindings_complete)
    show ?thesis
      using True by (simp add: step Cons.IH) (simp add: BindScope_def)
  next
    case False
    then have step: "bind_struct py ip scope_id s (self, bound) = (self, bound)"
      by (simp add: bind_struct_def struct_bindings_complete)
    show ?thesis
      using False by (simp add: step Cons.IH)
  qed
qed

text \<open>
  The records of the group a scope names, the bindings accepted for the scope, and when
  the scope is missing: the group is absent or empty, or no record satisfies all the
  requested fields.
\<close>

definition instances :: "python \<Rightarrow> kb_struct \<Rightarrow> string \<Rightarrow> kb_struct list" where
  "instances py knowledge_base scope_id =
     (case getattr knowledge_base (lower py scope_id) of
        None \<Rightarrow> []
      | Some v \<Rightarrow> (if py_bool (Some v) then py_iter py v else []))"

definition requested :: "interpolation \<Rightarrow> string \<Rightarrow> string \<Rightarrow> string list" where
  "requested ip pattern scope_id = remdups (scan_scope_vars ip pattern scope_id)"

definition accepted :: "python \<Rightarrow> interpolation \<Rightarrow> kb_struct \<Rightarrow> string \<Rightarrow> string \<Rightarrow> (string \<times> kb_struct) list" where
  "accepted py ip knowledge_base pattern scope_id =
     map (\<lambda>s. (scope_id, struct_bindings py s (requested ip pattern scope_id)))
       (filter (\<lambda>s. satisfies py s (requested ip pattern scope_id))
          (instances py knowledge_base scope_id))"

definition scope_missing :: "python \<Rightarrow> interpolation \<Rightarrow> kb_struct \<Rightarrow> string \<Rightarrow> string \<Rightarrow> bool" where
  "scope_missing py ip knowledge_base pattern scope_id =
     (\<not> py_bool (getattr knowledge_base (lower py scope_id))
      \<or> \<not> list_ex (\<lambda>s. satisfies py s (requested ip pattern scope_id))
             (instances py knowledge_base scope_id))"

definition var_missing :: "python \<Rightarrow> kb_struct \<Rightarrow> string \<Rightarrow> bool" where
  "var_missing py knowledge_base vid = (\<not> py_bool (getattr knowledge_base (lower py vid)))"

lemma instances_falsy:
  "\<not> py_bool (getattr knowledge_base (lower py scope_id)) \<Longrightarrow>
   instances py knowledge_base scope_id = []"
  by (auto simp: instances_def split: option.splits)

lemma bind_scope_eq:
  "bind_scope py ip knowledge_base scope_id (self, missing)
   = (self\<lparr>scope_bindings := scope_bindings self
            @ accepted py ip knowledge_base (ip_pattern self) scope_id\<rparr>,
      if scope_missing py ip knowledge_base (ip_pattern self) scope_id
      then set_add (lower py scope_id) missing else missing)"
proof (cases "py_bool (getattr knowledge_base (lower py scope_id))")
  case False
  then show ?thesis
    by (simp add: bind_scope_def scope_missing_def accepted_def instances_falsy)
next
  case True
  then obtain v where v: "getattr knowledge_base (lower py scope_id) = Some v"
    by (cases "getattr knowledge_base (lower py scope_id)") auto
  with True have i: "instances py knowledge_base scope_id = py_iter py v"
    by (simp add: instances_def)
  have r: "ScopeVars ip self scope_id = requested ip (ip_pattern self) scope_id"
    by (simp add: ScopeVars_def requested_def)
  show ?thesis
    using True v
    by (simp add: bind_scope_def fold_bind_struct scope_missing_def accepted_def i r)
qed

lemma fold_bind_scope:
  "fold (bind_scope py ip knowledge_base) scopes (self, missing)
   = (self\<lparr>scope_bindings := scope_bindings self
            @ concat (map (accepted py ip knowledge_base (ip_pattern self)) scopes)\<rparr>,
      fold set_add
        (map (lower py) (filter (scope_missing py ip knowledge_base (ip_pattern self)) scopes)) missing)"
proof (induction scopes arbitrary: self missing)
  case Nil
  show ?case by simp
next
  case (Cons s scopes)
  show ?case by (simp add: bind_scope_eq Cons.IH)
qed

lemma bind_var_eq:
  "bind_var py knowledge_base v (self, missing)
   = (if var_missing py knowledge_base v then (self, set_add (lower py v) missing)
      else (self\<lparr>var_bindings := var_bindings self
                  @ [(lower py v, the (getattr knowledge_base (lower py v)))]\<rparr>, missing))"
  by (simp add: bind_var_def var_missing_def BindVar_def Let_def)

lemma fold_bind_var:
  "fold (bind_var py knowledge_base) vars (self, missing)
   = (self\<lparr>var_bindings := var_bindings self
            @ map (\<lambda>v. (lower py v, the (getattr knowledge_base (lower py v))))
                (filter (\<lambda>v. \<not> var_missing py knowledge_base v) vars)\<rparr>,
      fold set_add (map (lower py) (filter (var_missing py knowledge_base) vars)) missing)"
proof (induction vars arbitrary: self missing)
  case Nil
  show ?case by simp
next
  case (Cons v vars)
  show ?case by (simp add: bind_var_eq Cons.IH)
qed

text \<open>The state after both loops, in closed form.\<close>

definition bound_vars :: "python \<Rightarrow> interpolation \<Rightarrow> kb_struct \<Rightarrow> string \<Rightarrow> (string \<times> kb_value) list" where
  "bound_vars py ip knowledge_base pattern =
     map (\<lambda>v. (lower py v, the (getattr knowledge_base (lower py v))))
       (filter (\<lambda>v. \<not> var_missing py knowledge_base v) (remdups (scan_vars ip pattern)))"

definition missing_names :: "python \<Rightarrow> interpolation \<Rightarrow> kb_struct \<Rightarrow> string \<Rightarrow> string set" where
  "missing_names py ip knowledge_base pattern =
     lower py ` {v \<in> set (scan_vars ip pattern). var_missing py knowledge_base v}
     \<union> lower py ` {s \<in> set (scan_scopes ip pattern). scope_missing py ip knowledge_base pattern s}"

lemma resolve_eq:
  "resolve py ip pattern knowledge_base
   = (\<lparr>ip_pattern = pattern,
       var_bindings = bound_vars py ip knowledge_base pattern,
       scope_bindings =
         concat (map (accepted py ip knowledge_base pattern) (remdups (scan_scopes ip pattern)))\<rparr>,
      fold set_add
        (map (lower py) (filter (scope_missing py ip knowledge_base pattern)
                      (remdups (scan_scopes ip pattern))))
        (fold set_add
           (map (lower py) (filter (var_missing py knowledge_base) (remdups (scan_vars ip pattern))))
           []))"
  by (simp add: resolve_def Let_def fold_bind_var fold_bind_scope Vars_def Scopes_def
        Interpolator_def bound_vars_def)

lemma set_missing: "set (snd (resolve py ip pattern knowledge_base)) = missing_names py ip knowledge_base pattern"
  by (auto simp: resolve_eq set_fold_set_add missing_names_def)

lemma distinct_missing: "distinct (snd (resolve py ip pattern knowledge_base))"
  by (simp add: resolve_eq distinct_fold_set_add)

lemma missing_Nil:
  "snd (resolve py ip pattern knowledge_base) = [] \<longleftrightarrow> missing_names py ip knowledge_base pattern = {}"
  by (metis set_missing set_empty)

lemma sublist_join: "x \<in> set xs \<Longrightarrow> sublist x (join sep xs)"
proof (induction sep xs rule: join.induct)
  case (1 sep)
  then show ?case by simp
next
  case (2 sep y)
  then show ?case by simp
next
  case (3 sep y z zs)
  show ?case
  proof (cases "x = y")
    case True
    then show ?thesis by simp
  next
    case False
    with 3 have "sublist x (join sep (z # zs))" by simp
    then obtain ps ss where "join sep (z # zs) = ps @ x @ ss"
      by (auto simp: sublist_def)
    then have "join sep (y # z # zs) = (y @ sep @ ps) @ x @ ss" by simp
    then show ?thesis unfolding sublist_def by blast
  qed
qed

lemma sublist_missing_message:
  "name \<in> set names \<Longrightarrow> sublist name (missing_message py names)"
proof -
  assume "name \<in> set names"
  then have "sublist name (join '', '' (set_iter (set_slot py) names))"
    by (simp add: sublist_join set_iter_def)
  then obtain ps ss where "join '', '' (set_iter (set_slot py) names) = ps @ name @ ss"
    by (auto simp: sublist_def)
  then have "missing_message py names
      = (''Some attributes could not be located in the knowledgebase: '' @ ps) @ name @ ss"
    by (simp add: missing_message_def)
  then show ?thesis unfolding sublist_def by blast
qed

lemma InterpolateKbAttributes_eq:
  "InterpolateKbAttributes py ip pattern knowledge_base ignore_errors
   = (if missing_names py ip knowledge_base pattern = {}
      then ([], Inr (Interpolate ip (fst (resolve py ip pattern knowledge_base))))
      else if ignore_errors
      then ([missing_message py (snd (resolve py ip pattern knowledge_base))], Inr [])
      else ([], Inl (KnowledgeBaseInterpolationError
                      (missing_message py (snd (resolve py ip pattern knowledge_base))))))"
proof (cases "resolve py ip pattern knowledge_base")
  case (Pair interpolator missing)
  with missing_Nil[of py ip pattern knowledge_base] show ?thesis
    by (simp add: InterpolateKbAttributes_def Let_def)
qed

section \<open>Examples\<close>

text \<open>
  A knowledge base with an operating system, an empty host name and three users, the
  second of whom has no home directory; the interpolation module of the specification;
  and two iteration orders of a set of strings.
\<close>

definition example_kb :: kb_struct where
  "example_kb =
     [(''os'', Str ''Windows''), (''fqdn'', Str []),
      (''users'', Group
         [[(''username'', Str ''alice''), (''homedir'', Str ''/home/alice'')],
          [(''username'', Str ''bob'')],
          [(''username'', Str ''carol''), (''homedir'', Str ''/home/carol'')]])]"

definition example_interpolation :: interpolation where
  "example_interpolation = spec_interpolation ascii_lower (\<lambda>g. ''[users]'')"

text \<open>An interpolation module whose scanner keeps the identifiers as they are written.\<close>

definition case_keeping_interpolation :: interpolation where
  "case_keeping_interpolation = spec_interpolation (\<lambda>s. s) (\<lambda>g. ''[users]'')"

section \<open>Claims about \<open>InterpolateKbAttributes\<close>\<close>

text \<open>
  C1. Strict interpolation (\<open>ignore_errors\<close> false): the set of missing names that the
  two loops compute is the complete set of unresolvable top-level names of the pattern,
  the lower-cased scalar names with no non-empty value and the lower-cased scope names
  with no accepted record. The call raises exactly when this set is not empty, and then
  it raises one \<open>KnowledgeBaseInterpolationError\<close>, logs nothing and yields nothing; the
  message of the error is computed from the whole set and mentions every missing name.
\<close>

theorem strict_interpolation_aggregates_missing_names:
  "set (snd (resolve py ip pattern knowledge_base)) = missing_names py ip knowledge_base pattern
   \<and> InterpolateKbAttributes py ip pattern knowledge_base False
     = (if missing_names py ip knowledge_base pattern = {}
        then ([], Inr (Interpolate ip (fst (resolve py ip pattern knowledge_base))))
        else ([], Inl (KnowledgeBaseInterpolationError
                        (missing_message py (snd (resolve py ip pattern knowledge_base))))))
   \<and> (\<forall>name \<in> missing_names py ip knowledge_base pattern.
        sublist name (missing_message py (snd (resolve py ip pattern knowledge_base))))"
  by (simp add: InterpolateKbAttributes_eq set_missing sublist_missing_message
        flip: set_missing)

theorem strict_interpolation_aggregates_missing_names_witness:
  "missing_names example_python example_interpolation example_kb
      ''%%a%% %%b%% %%fqdn%% %%os%% %%Users.sid%% %%x.y%%''
     = {''a'', ''b'', ''fqdn'', ''users'', ''x''}
   \<and> InterpolateKbAttributes example_python example_interpolation
       ''%%a%% %%b%% %%fqdn%% %%os%% %%Users.sid%% %%x.y%%'' example_kb False
     = ([], Inl (KnowledgeBaseInterpolationError
         ''Some attributes could not be located in the knowledgebase: a, b, fqdn, users, x''))
   \<and> sublist ''users''
        ''Some attributes could not be located in the knowledgebase: a, b, fqdn, users, x''"
proof -
  have r: "snd (resolve example_python example_interpolation
                 ''%%a%% %%b%% %%fqdn%% %%os%% %%Users.sid%% %%x.y%%'' example_kb)
      = [''a'', ''b'', ''fqdn'', ''users'', ''x'']"
    by code_simp
  have m: "missing_message example_python [''a'', ''b'', ''fqdn'', ''users'', ''x'']
      = ''Some attributes could not be located in the knowledgebase: a, b, fqdn, users, x''"
    by code_simp
  from strict_interpolation_aggregates_missing_names
    [of example_python example_interpolation
        "''%%a%% %%b%% %%fqdn%% %%os%% %%Users.sid%% %%x.y%%''" example_kb]
  show ?thesis
    unfolding r m by auto
qed

text \<open>
  C3. When the set of missing names is not empty and \<open>ignore_errors\<close> is true, the call
  raises nothing and yields no string at all; the diagnostic is logged instead.
\<close>

theorem lenient_interpolation_yields_nothing:
  "missing_names py ip knowledge_base pattern \<noteq> {} \<Longrightarrow>
   InterpolateKbAttributes py ip pattern knowledge_base True
   = ([missing_message py (snd (resolve py ip pattern knowledge_base))], Inr [])"
  by (simp add: InterpolateKbAttributes_eq)

theorem lenient_interpolation_yields_nothing_witness:
  "missing_names example_python example_interpolation example_kb ''%%os%%: %%fqdn%%/%%users.homedir%%''
     = {''fqdn''}
   \<and> InterpolateKbAttributes example_python example_interpolation
       ''%%os%%: %%fqdn%%/%%users.homedir%%'' example_kb True
     = ([''Some attributes could not be located in the knowledgebase: fqdn''], Inr [])"
proof -
  have r: "snd (resolve example_python example_interpolation ''%%os%%: %%fqdn%%/%%users.homedir%%'' example_kb)
      = [''fqdn'']"
    by code_simp
  have s: "missing_names example_python example_interpolation example_kb
      ''%%os%%: %%fqdn%%/%%users.homedir%%'' = {''fqdn''}"
    using set_missing[of example_python example_interpolation
        "''%%os%%: %%fqdn%%/%%users.homedir%%''" example_kb]
    unfolding r by simp
  have m: "missing_message example_python [''fqdn'']
      = ''Some attributes could not be located in the knowledgebase: fqdn''"
    by code_simp
  have n: "missing_names example_python example_interpolation example_kb
      ''%%os%%: %%fqdn%%/%%users.homedir%%'' \<noteq> {}"
    unfolding s by simp
  from lenient_interpolation_yields_nothing[OF n] s
  show ?thesis unfolding r m by simp
qed

text \<open>
  C4, as the code has it. When the set of missing names is not empty and \<open>ignore_errors\<close>
  is false, the error raised carries one message: the fixed prefix followed by all the
  missing names, each once, joined with a comma and a space in the order in which Python
  iterates the set. The code does not sort the names.
\<close>

theorem strict_error_message_joins_missing_names:
  "missing_names py ip knowledge_base pattern \<noteq> {} \<Longrightarrow>
   InterpolateKbAttributes py ip pattern knowledge_base False
     = ([], Inl (KnowledgeBaseInterpolationError
          (''Some attributes could not be located in the knowledgebase: ''
             @ join '', '' (set_iter (set_slot py) (snd (resolve py ip pattern knowledge_base))))))
   \<and> set (set_iter (set_slot py) (snd (resolve py ip pattern knowledge_base)))
       = missing_names py ip knowledge_base pattern
   \<and> distinct (set_iter (set_slot py) (snd (resolve py ip pattern knowledge_base)))
   \<and> sorted (map (set_slot py) (set_iter (set_slot py) (snd (resolve py ip pattern knowledge_base))))"
  by (simp add: InterpolateKbAttributes_eq missing_message_def set_iter_def set_missing
        distinct_missing)

theorem strict_error_message_joins_missing_names_witness:
  "missing_names b_first_python example_interpolation [] ''%%a%% and %%b%%'' \<noteq> {}
   \<and> InterpolateKbAttributes b_first_python example_interpolation ''%%a%% and %%b%%'' [] False
     = ([], Inl (KnowledgeBaseInterpolationError
          ''Some attributes could not be located in the knowledgebase: b, a''))"
proof -
  have r: "snd (resolve b_first_python example_interpolation ''%%a%% and %%b%%'' []) = [''a'', ''b'']"
    by code_simp
  have n: "missing_names b_first_python example_interpolation [] ''%%a%% and %%b%%'' \<noteq> {}"
    using set_missing[of b_first_python example_interpolation "''%%a%% and %%b%%''" "[]"]
    unfolding r by auto
  have i: "''Some attributes could not be located in the knowledgebase: ''
             @ join '', '' (set_iter (set_slot b_first_python) [''a'', ''b''])
      = ''Some attributes could not be located in the knowledgebase: b, a''"
    by code_simp
  from strict_error_message_joins_missing_names[OF n] n
  show ?thesis unfolding r i by simp
qed

text \<open>
  The claim as stated, that the names are carried as a sorted list, fails: with two
  missing names \<open>a\<close> and \<open>b\<close> and a set that iterates \<open>b\<close> first, the message reads
  \<open>b, a\<close>, which is not the sorted list joined.
\<close>

theorem strict_error_message_sorted_counterexample:
  "InterpolateKbAttributes b_first_python example_interpolation ''%%a%% and %%b%%'' [] False
     = ([], Inl (KnowledgeBaseInterpolationError
          ''Some attributes could not be located in the knowledgebase: b, a''))
   \<and> ''Some attributes could not be located in the knowledgebase: b, a''
     \<noteq> ''Some attributes could not be located in the knowledgebase: ''
         @ join '', '' (sort [''a'', ''b''])"
  by code_simp

lemma filter_accepted:
  "filter (\<lambda>b. fst b = scope_id) (accepted py ip knowledge_base pattern s)
   = (if s = scope_id then accepted py ip knowledge_base pattern s else [])"
  by (auto simp: accepted_def filter_map o_def)

lemma filter_concat_accepted:
  "distinct scopes \<Longrightarrow> scope_id \<in> set scopes \<Longrightarrow>
   filter (\<lambda>b. fst b = scope_id) (concat (map (accepted py ip knowledge_base pattern) scopes))
   = accepted py ip knowledge_base pattern scope_id"
proof (induction scopes)
  case Nil
  then show ?case by simp
next
  case (Cons s scopes)
  show ?case
  proof (cases "s = scope_id")
    case True
    with Cons.prems have "scope_id \<notin> set scopes" by simp
    then have "filter (\<lambda>b. fst b = scope_id)
        (concat (map (accepted py ip knowledge_base pattern) scopes)) = []"
      by (induction scopes) (auto simp: filter_accepted)
    with True show ?thesis by (simp add: filter_accepted)
  next
    case False
    with Cons show ?thesis by (simp add: filter_accepted)
  qed
qed




section \<open>Claims about \<open>InterpolateListKbAttributes\<close>\<close>

lemma interpolate_elements_eq:
  "snd (interpolate_elements py ip knowledge_base ignore_errors input_list acc)
   = (case find (\<lambda>element. isl (snd (InterpolateKbAttributes py ip element
                                       knowledge_base ignore_errors))) input_list of
        None \<Rightarrow>
          Inr (acc @ concat (map (\<lambda>element. projr (snd (InterpolateKbAttributes py ip
                                      element knowledge_base ignore_errors))) input_list))
      | Some element \<Rightarrow>
          Inl (projl (snd (InterpolateKbAttributes py ip element knowledge_base
                             ignore_errors))))"
proof (induction input_list arbitrary: acc)
  case Nil
  show ?case by simp
next
  case (Cons element rest)
  obtain logged outcome where r:
    "InterpolateKbAttributes py ip element knowledge_base ignore_errors = (logged, outcome)"
    by (cases "InterpolateKbAttributes py ip element knowledge_base ignore_errors")
  show ?case
  proof (cases outcome)
    case (Inl e)
    with r show ?thesis by simp
  next
    case (Inr strings)
    with r Cons.IH[of "acc @ strings"] show ?thesis
      by (auto split: prod.splits option.splits)
  qed
qed

lemma lenient_never_raises:
  "\<not> isl (snd (InterpolateKbAttributes py ip element knowledge_base True))"
  by (simp add: InterpolateKbAttributes_eq)

text \<open>
  C7. \<open>InterpolateListKbAttributes\<close> returns the concatenation, in list order, of the
  expansions of the elements: of the empty list the empty list; in general, when no
  element raises, the expansions one after the other, which with \<open>ignore_errors\<close> true is
  always so; and when an element raises, the exception of the first such element.
\<close>

theorem InterpolateListKbAttributes_concatenates:
  "InterpolateListKbAttributes py ip [] knowledge_base ignore_errors = ([], Inr [])
   \<and> snd (InterpolateListKbAttributes py ip input_list knowledge_base ignore_errors)
     = (case find (\<lambda>element. isl (snd (InterpolateKbAttributes py ip element
                                         knowledge_base ignore_errors))) input_list of
          None \<Rightarrow>
            Inr (concat (map (\<lambda>element. projr (snd (InterpolateKbAttributes py ip
                                      element knowledge_base ignore_errors))) input_list))
        | Some element \<Rightarrow>
            Inl (projl (snd (InterpolateKbAttributes py ip element knowledge_base
                               ignore_errors))))
   \<and> snd (InterpolateListKbAttributes py ip input_list knowledge_base True)
     = Inr (concat (map (\<lambda>element. projr (snd (InterpolateKbAttributes py ip
                                      element knowledge_base True))) input_list))"
proof -
  have general: "snd (InterpolateListKbAttributes py ip input_list knowledge_base ig)
     = (case find (\<lambda>element. isl (snd (InterpolateKbAttributes py ip element
                                         knowledge_base ig))) input_list of
          None \<Rightarrow>
            Inr (concat (map (\<lambda>element. projr (snd (InterpolateKbAttributes py ip
                                      element knowledge_base ig))) input_list))
        | Some element \<Rightarrow>
            Inl (projl (snd (InterpolateKbAttributes py ip element knowledge_base ig))))"
    for ig
    by (simp add: InterpolateListKbAttributes_def interpolate_elements_eq
          split: option.splits)
  have none: "find (\<lambda>element. isl (snd (InterpolateKbAttributes py ip element
                                    knowledge_base True))) input_list = None"
    by (simp add: find_None_iff lenient_never_raises)
  have lenient: "snd (InterpolateListKbAttributes py ip input_list knowledge_base True)
     = Inr (concat (map (\<lambda>element. projr (snd (InterpolateKbAttributes py ip
                                      element knowledge_base True))) input_list))"
    using general[of True] none by simp
  have empty: "InterpolateListKbAttributes py ip [] knowledge_base ignore_errors
      = ([], Inr [])"
    by (simp add: InterpolateListKbAttributes_def)
  from empty general[of ignore_errors] lenient show ?thesis by blast
qed

theorem InterpolateListKbAttributes_concatenates_witness:
  "InterpolateListKbAttributes example_python example_interpolation
       [''%%os%%'', ''%%a%%'', ''%%users.username%%''] example_kb True
     = ([''Some attributes could not be located in the knowledgebase: a''],
        Inr [''Windows'', ''alice'', ''bob'', ''carol''])
   \<and> snd (InterpolateListKbAttributes example_python example_interpolation
       [''%%os%%'', ''%%a%%'', ''%%users.username%%'', ''%%b%%''] example_kb False)
     = Inl (KnowledgeBaseInterpolationError
         ''Some attributes could not be located in the knowledgebase: a'')
   \<and> concat (map (\<lambda>element. projr (snd (InterpolateKbAttributes example_python example_interpolation
                      element example_kb True)))
         [''%%os%%'', ''%%a%%'', ''%%users.username%%''])
     = [''Windows'', ''alice'', ''bob'', ''carol'']"
proof -
  have a: "InterpolateListKbAttributes example_python example_interpolation
       [''%%os%%'', ''%%a%%'', ''%%users.username%%''] example_kb True
     = ([''Some attributes could not be located in the knowledgebase: a''],
        Inr [''Windows'', ''alice'', ''bob'', ''carol''])"
    by code_simp
  have b: "snd (InterpolateListKbAttributes example_python example_interpolation
       [''%%os%%'', ''%%a%%'', ''%%users.username%%'', ''%%b%%''] example_kb False)
     = Inl (KnowledgeBaseInterpolationError
         ''Some attributes could not be located in the knowledgebase: a'')"
    by code_simp
  from InterpolateListKbAttributes_concatenates
    [of example_python example_interpolation example_kb True
        "[''%%os%%'', ''%%a%%'', ''%%users.username%%'']"] a b
  show ?thesis by simp
qed

section \<open>Claims about the scanner and the expander of the specification\<close>

lemma spec_interpolation_simps [simp]:
  "scan_vars (spec_interpolation low group_text) = Scan_vars low"
  "scan_scopes (spec_interpolation low group_text) = Scan_scopes low"
  "scan_scope_vars (spec_interpolation low group_text) = Scan_scope_fields low"
  "expand (spec_interpolation low group_text) = Expand low group_text"
  by (simp_all add: spec_interpolation_def)

lemma finditer_from_Nil:
  "finditer_from d pos s = [] \<Longrightarrow> split_markers d lit s = [Text (lit @ s)]"
proof (induction d pos s arbitrary: lit rule: finditer_from.induct)
  case (1 d pos)
  show ?case by simp
next
  case (2 d pos c cs)
  show ?case
  proof (cases "regex_match d (c # cs)")
    case None
    with 2(3) have "finditer_from d (Suc pos) cs = []" by simp
    from 2(1)[OF None this, of "lit @ [c]"] None show ?thesis by simp
  next
    case (Some br)
    with 2(3) show ?thesis by (cases br) simp
  qed
qed

lemma no_marker_tokens:
  "finditer INTERPOLATED_REGEX pattern = [] \<Longrightarrow>
   tokens INTERPOLATED_REGEX pattern = [Text pattern]"
  using finditer_from_Nil[of INTERPOLATED_REGEX 0 pattern "[]"]
  by (simp add: finditer_def tokens_def)

text \<open>
  C5. A pattern in which \<open>INTERPOLATED_REGEX\<close> finds no placeholder marker yields exactly
  one string, the pattern itself, whatever the knowledge base holds and whatever
  \<open>ignore_errors\<close> is; nothing is raised and nothing is logged.
\<close>

theorem no_placeholders_yield_pattern:
  "finditer INTERPOLATED_REGEX pattern = [] \<Longrightarrow>
   InterpolateKbAttributes py (spec_interpolation (lower py) group_text) pattern knowledge_base
     ignore_errors
   = ([], Inr [pattern])"
proof -
  assume "finditer INTERPOLATED_REGEX pattern = []"
  then have t: "tokens INTERPOLATED_REGEX pattern = [Text pattern]"
    by (rule no_marker_tokens)
  then have r: "references (lower py) pattern = []" by (simp add: references_def)
  then have v: "Scan_vars (lower py) pattern = []" and sc: "Scan_scopes (lower py) pattern = []"
    by (simp_all add: Scan_vars_def Scan_scopes_def)
  have m: "missing_names py (spec_interpolation (lower py) group_text) knowledge_base pattern = {}"
    by (simp add: missing_names_def v sc)
  have "Interpolate (spec_interpolation (lower py) group_text)
          (fst (resolve py (spec_interpolation (lower py) group_text) pattern knowledge_base)) = [pattern]"
    by (simp add: Interpolate_def resolve_eq Expand_def t sc)
  with m show ?thesis by (simp add: InterpolateKbAttributes_eq)
qed

theorem no_placeholders_yield_pattern_witness:
  "finditer INTERPOLATED_REGEX ''literal text, 100% of it'' = []
   \<and> InterpolateKbAttributes example_python example_interpolation ''literal text, 100% of it''
       example_kb False
     = ([], Inr [''literal text, 100% of it''])"
proof -
  have f: "finditer INTERPOLATED_REGEX ''literal text, 100% of it'' = []"
    by code_simp
  from no_placeholders_yield_pattern
    [OF f, of example_python "\<lambda>g. ''[users]''" example_kb False] f
  show ?thesis by (simp add: example_interpolation_def example_python_def)
qed


text \<open>
  Two patterns differ only in the case of placeholder bodies when their parts are the
  same, text for text and marker for marker, a marker being taken for the lower-cased
  identifiers it names.
\<close>

fun normalise :: "(string \<Rightarrow> string) \<Rightarrow> token \<Rightarrow> string + reference" where
  "normalise low (Text t) = Inl t"
| "normalise low (Marker body) = Inr (marker_reference low body)"

text \<open>The text that replaces a part whose marker is bound.\<close>

fun replacement ::
  "(kb_struct list \<Rightarrow> string) \<Rightarrow> (string \<times> kb_value) list \<Rightarrow> (string \<times> kb_struct) list
   \<Rightarrow> string + reference \<Rightarrow> string" where
  "replacement group_text bindings combination (Inl t) = t"
| "replacement group_text bindings combination (Inr (VarRef name)) =
     (case map_of bindings name of Some v \<Rightarrow> value_text group_text v | None \<Rightarrow> [])"
| "replacement group_text bindings combination (Inr (ScopeRef scope field)) =
     (case map_of combination scope of
        Some record_bindings \<Rightarrow>
          (case map_of record_bindings field of
             Some v \<Rightarrow> value_text group_text v
           | None \<Rightarrow> [])
      | None \<Rightarrow> [])"

lemma marker_reference_cases:
  obtains (var) "marker_reference low body = VarRef (low (takeWhile (\<lambda>c. c \<noteq> CHR ''.'') body))"
  | (scope) "marker_reference low body
      = ScopeRef (low (takeWhile (\<lambda>c. c \<noteq> CHR ''.'') body))
          (low (tl (dropWhile (\<lambda>c. c \<noteq> CHR ''.'') body)))"
proof -
  define r where "r = dropWhile (\<lambda>c. c \<noteq> CHR ''.'') body"
  define n where "n = takeWhile (\<lambda>c. c \<noteq> CHR ''.'') body"
  have "marker_reference low body = (if r = [] then VarRef (low n) else ScopeRef (low n) (low (tl r)))"
    unfolding marker_reference_def Let_def r_def n_def ..
  then have "marker_reference low body = VarRef (low n)
      \<or> marker_reference low body = ScopeRef (low n) (low (tl r))"
    by (cases "r = []") simp_all
  then show thesis using var scope unfolding r_def n_def by blast
qed

lemma marker_reference_VarRef:
  assumes "\<And>s. low (low s) = low s" and "marker_reference low body = VarRef name"
  shows "low name = name"
proof -
  have "name = low (takeWhile (\<lambda>c. c \<noteq> CHR ''.'') body)"
    using assms(2) by (cases low body rule: marker_reference_cases) simp_all
  then show ?thesis by (simp only: assms(1))
qed

lemma marker_reference_ScopeRef:
  assumes "\<And>s. low (low s) = low s" and "marker_reference low body = ScopeRef scope field"
  shows "low scope = scope \<and> low field = field"
proof -
  have "scope = low (takeWhile (\<lambda>c. c \<noteq> CHR ''.'') body)
      \<and> field = low (tl (dropWhile (\<lambda>c. c \<noteq> CHR ''.'') body))"
    using assms(2) by (cases low body rule: marker_reference_cases) simp_all
  then show ?thesis by (simp only: assms(1) simp_thms)
qed

lemma token_references_normalise:
  "token_references low t = (case normalise low t of Inl x \<Rightarrow> [] | Inr r \<Rightarrow> [r])"
  by (cases t) simp_all

lemma references_normalise:
  "references low pattern
   = concat (map (\<lambda>x. case x of Inl t \<Rightarrow> [] | Inr r \<Rightarrow> [r])
              (map (normalise low) (tokens INTERPOLATED_REGEX pattern)))"
proof -
  have "token_references low = (\<lambda>t. case normalise low t of Inl x \<Rightarrow> [] | Inr r \<Rightarrow> [r])"
    by (rule ext) (rule token_references_normalise)
  then show ?thesis by (simp add: references_def o_def)
qed

lemma Marker_references:
  "Marker body \<in> set (tokens INTERPOLATED_REGEX pattern) \<Longrightarrow>
   marker_reference low body \<in> set (references low pattern)"
  by (force simp: references_def)

lemma VarRef_Scan_vars:
  "VarRef name \<in> set (references low pattern) \<Longrightarrow> name \<in> set (Scan_vars low pattern)"
  by (force simp: Scan_vars_def)

lemma ScopeRef_Scan:
  "ScopeRef scope field \<in> set (references low pattern) \<Longrightarrow>
   scope \<in> set (Scan_scopes low pattern) \<and> field \<in> set (Scan_scope_fields low pattern scope)"
  by (force simp: Scan_scopes_def Scan_scope_fields_def)

lemma reference_of_marker:
  "r \<in> set (references low pattern) \<Longrightarrow> \<exists>body. r = marker_reference low body"
proof -
  assume "r \<in> set (references low pattern)"
  then obtain t where t: "r \<in> set (token_references low t)"
    by (auto simp: references_def)
  then show ?thesis by (cases t) auto
qed

lemma Scan_vars_lower:
  assumes "\<And>s. low (low s) = low s" and "name \<in> set (Scan_vars low pattern)"
  shows "low name = name"
proof -
  from assms(2) obtain r where r: "r \<in> set (references low pattern)" "name \<in> set (var_names r)"
    by (auto simp: Scan_vars_def)
  from r(2) have "r = VarRef name" by (cases r) simp_all
  with reference_of_marker[OF r(1)] obtain body where "marker_reference low body = VarRef name"
    by auto
  then show ?thesis by (rule marker_reference_VarRef[OF assms(1)])
qed

lemma Scan_scopes_lower:
  assumes "\<And>s. low (low s) = low s" and "scope \<in> set (Scan_scopes low pattern)"
  shows "low scope = scope"
proof -
  from assms(2) obtain r where r: "r \<in> set (references low pattern)" "scope \<in> set (scope_names r)"
    by (auto simp: Scan_scopes_def)
  from r(2) obtain field where "r = ScopeRef scope field" by (cases r) simp_all
  with reference_of_marker[OF r(1)] obtain body
    where "marker_reference low body = ScopeRef scope field" by auto
  from marker_reference_ScopeRef[OF assms(1) this] show ?thesis by simp
qed

text \<open>Every combination the expander forms has, for each scope of the pattern, one of the
  bindings accepted for that scope.\<close>

lemma product_lists_lookup:
  "combination \<in> set (product_lists (map g scopes)) \<Longrightarrow> distinct scopes \<Longrightarrow>
   (\<And>s x. s \<in> set scopes \<Longrightarrow> x \<in> set (g s) \<Longrightarrow> fst x = s) \<Longrightarrow> scope \<in> set scopes \<Longrightarrow>
   \<exists>b. map_of combination scope = Some b \<and> (scope, b) \<in> set (g scope)"
proof (induction scopes arbitrary: combination)
  case Nil
  then show ?case by simp
next
  case (Cons s scopes)
  from Cons.prems(1) obtain x rest where c: "combination = x # rest" "x \<in> set (g s)"
    "rest \<in> set (product_lists (map g scopes))"
    by auto
  from Cons.prems(3)[of s x] c have fx: "fst x = s" by simp
  show ?case
  proof (cases "scope = s")
    case True
    with c fx show ?thesis by (cases x) auto
  next
    case False
    with Cons.prems have "scope \<in> set scopes" "distinct scopes" by auto
    from Cons.IH[OF c(3) this(2) _ this(1)] Cons.prems(3)
    obtain b where "map_of rest scope = Some b" "(scope, b) \<in> set (g scope)" by auto
    with c fx False show ?thesis by (cases x) auto
  qed
qed

lemma accepted_lookup:
  "(scope, b) \<in> set (accepted py ip knowledge_base pattern scope) \<Longrightarrow>
   field \<in> set (scan_scope_vars ip pattern scope) \<Longrightarrow> map_of b field \<noteq> None"
proof -
  assume a: "(scope, b) \<in> set (accepted py ip knowledge_base pattern scope)"
    and f: "field \<in> set (scan_scope_vars ip pattern scope)"
  from a obtain s where b: "b = struct_bindings py s (requested ip pattern scope)"
    and sat: "satisfies py s (requested ip pattern scope)"
    by (auto simp: accepted_def)
  have d: "distinct (requested ip pattern scope)" by (simp add: requested_def)
  from f have "field \<in> set (requested ip pattern scope)" by (simp add: requested_def)
  from struct_bindings_lookup[OF d sat this] b show ?thesis
    by (cases "getattr s (lower py field)") auto
qed

lemma bound_vars_lookup:
  "name \<in> set (scan_vars ip pattern) \<Longrightarrow> \<not> var_missing py knowledge_base name \<Longrightarrow>
   lower py name = name \<Longrightarrow> map_of (bound_vars py ip knowledge_base pattern) name \<noteq> None"
proof -
  assume n: "name \<in> set (scan_vars ip pattern)" and m: "\<not> var_missing py knowledge_base name"
    and l: "lower py name = name"
  from n m have "lower py name \<in> fst ` set (bound_vars py ip knowledge_base pattern)"
    by (force simp: bound_vars_def)
  with l show ?thesis by (simp add: map_of_eq_None_iff)
qed

lemma substitute_replacement:
  assumes idem: "\<And>s. lower py (lower py s) = lower py s"
    and m: "missing_names py (spec_interpolation (lower py) group_text) knowledge_base pattern = {}"
    and c: "combination \<in> set (product_lists
              (map (accepted py (spec_interpolation (lower py) group_text) knowledge_base pattern)
                 (remdups (Scan_scopes (lower py) pattern))))"
    and t: "t \<in> set (tokens INTERPOLATED_REGEX pattern)"
  shows "substitute (lower py) group_text
           (bound_vars py (spec_interpolation (lower py) group_text) knowledge_base pattern)
           combination t
         = replacement group_text
             (bound_vars py (spec_interpolation (lower py) group_text) knowledge_base pattern)
             combination (normalise (lower py) t)"
proof (cases t)
  case (Text x)
  then show ?thesis by simp
next
  case (Marker body)
  let ?ip = "spec_interpolation (lower py) group_text"
  from t Marker have r: "marker_reference (lower py) body \<in> set (references (lower py) pattern)"
    by (simp add: Marker_references)
  show ?thesis
  proof (cases "marker_reference (lower py) body")
    case (VarRef name)
    with r have n: "name \<in> set (Scan_vars (lower py) pattern)" by (simp add: VarRef_Scan_vars)
    with m have "\<not> var_missing py knowledge_base name" by (auto simp: missing_names_def)
    from bound_vars_lookup[of name ?ip pattern, OF _ this Scan_vars_lower[OF idem n]] n
    obtain v where "map_of (bound_vars py ?ip knowledge_base pattern) name = Some v" by auto
    with Marker VarRef show ?thesis by simp
  next
    case (ScopeRef scope field)
    with r have s: "scope \<in> set (Scan_scopes (lower py) pattern)"
      and f: "field \<in> set (Scan_scope_fields (lower py) pattern scope)"
      by (simp_all add: ScopeRef_Scan)
    have key: "fst x = s'" if "x \<in> set (accepted py ?ip knowledge_base pattern s')" for s' x
      using that by (auto simp: accepted_def)
    from s have s': "scope \<in> set (remdups (Scan_scopes (lower py) pattern))" by simp
    have "\<exists>b. map_of combination scope = Some b
        \<and> (scope, b) \<in> set (accepted py ?ip knowledge_base pattern scope)"
      by (rule product_lists_lookup[OF c distinct_remdups key s'])
    then obtain b where b: "map_of combination scope = Some b"
      "(scope, b) \<in> set (accepted py ?ip knowledge_base pattern scope)" by auto
    from accepted_lookup[OF b(2), of field] f obtain v where "map_of b field = Some v" by auto
    with Marker ScopeRef b show ?thesis by simp
  qed
qed

lemma Interpolate_spec:
  "Interpolate (spec_interpolation low group_text)
     (fst (resolve py (spec_interpolation low group_text) pattern knowledge_base))
   = map (\<lambda>combination.
            concat (map (substitute low group_text
                           (bound_vars py (spec_interpolation low group_text) knowledge_base
                              pattern)
                           combination)
                      (tokens INTERPOLATED_REGEX pattern)))
       (product_lists
          (map (accepted py (spec_interpolation low group_text) knowledge_base pattern)
             (remdups (Scan_scopes low pattern))))"
proof -
  let ?ip = "spec_interpolation low group_text"
  have eq: "map (\<lambda>scope. filter (\<lambda>b. fst b = scope)
                (concat (map (accepted py ?ip knowledge_base pattern)
                           (remdups (Scan_scopes low pattern)))))
          (remdups (Scan_scopes low pattern))
      = map (accepted py ?ip knowledge_base pattern) (remdups (Scan_scopes low pattern))"
    by (rule map_cong[OF refl]) (rule filter_concat_accepted[OF distinct_remdups])
  have "Interpolate ?ip (fst (resolve py ?ip pattern knowledge_base))
      = Expand low group_text pattern (bound_vars py ?ip knowledge_base pattern)
          (concat (map (accepted py ?ip knowledge_base pattern)
                     (remdups (Scan_scopes low pattern))))"
    by (simp add: Interpolate_def resolve_eq)
  also have "\<dots> = map (\<lambda>combination.
            concat (map (substitute low group_text (bound_vars py ?ip knowledge_base pattern)
                           combination)
                      (tokens INTERPOLATED_REGEX pattern)))
       (product_lists
          (map (accepted py ?ip knowledge_base pattern) (remdups (Scan_scopes low pattern))))"
    unfolding Expand_def eq ..
  finally show ?thesis .
qed

lemma Interpolate_spec_normalised:
  assumes idem: "\<And>s. lower py (lower py s) = lower py s"
    and m: "missing_names py (spec_interpolation (lower py) group_text) knowledge_base pattern = {}"
  shows "Interpolate (spec_interpolation (lower py) group_text)
     (fst (resolve py (spec_interpolation (lower py) group_text) pattern knowledge_base))
   = map (\<lambda>combination.
            concat (map (replacement group_text
                           (bound_vars py (spec_interpolation (lower py) group_text)
                              knowledge_base pattern)
                           combination)
                      (map (normalise (lower py)) (tokens INTERPOLATED_REGEX pattern))))
       (product_lists
          (map (accepted py (spec_interpolation (lower py) group_text) knowledge_base pattern)
             (remdups (Scan_scopes (lower py) pattern))))"
  unfolding Interpolate_spec
proof (rule map_cong[OF refl])
  fix combination
  let ?ip = "spec_interpolation (lower py) group_text"
  assume c: "combination \<in> set (product_lists
              (map (accepted py ?ip knowledge_base pattern)
                 (remdups (Scan_scopes (lower py) pattern))))"
  have "map (substitute (lower py) group_text (bound_vars py ?ip knowledge_base pattern)
               combination)
          (tokens INTERPOLATED_REGEX pattern)
      = map (replacement group_text (bound_vars py ?ip knowledge_base pattern) combination)
          (map (normalise (lower py)) (tokens INTERPOLATED_REGEX pattern))"
    unfolding map_map o_def
    by (rule map_cong[OF refl]) (rule substitute_replacement[OF idem m c])
  then show "concat (map (substitute (lower py) group_text
               (bound_vars py ?ip knowledge_base pattern) combination)
          (tokens INTERPOLATED_REGEX pattern))
      = concat (map (replacement group_text
               (bound_vars py ?ip knowledge_base pattern) combination)
          (map (normalise (lower py)) (tokens INTERPOLATED_REGEX pattern)))"
    by (rule arg_cong)
qed

lemma ascii_lower_char_idem: "ascii_lower_char (ascii_lower_char c) = ascii_lower_char c"
proof (cases "65 \<le> (of_char c :: nat) \<and> (of_char c :: nat) \<le> 90")
  case True
  then have lt: "of_char c + 32 < (256::nat)" by linarith
  have "(of_char (char_of (of_char c + 32 :: nat)) :: nat) = (of_char c + 32) mod 256"
    by (rule of_char_of)
  also have "\<dots> = of_char c + 32" using lt by (rule mod_less)
  finally have e: "(of_char (char_of (of_char c + 32 :: nat)) :: nat) = of_char c + 32" .
  have l: "ascii_lower_char c = char_of (of_char c + 32 :: nat)"
    using True unfolding ascii_lower_char_def Let_def by (rule if_P)
  have n: "\<not> (65 \<le> (of_char (ascii_lower_char c) :: nat)
      \<and> (of_char (ascii_lower_char c) :: nat) \<le> 90)"
    unfolding l e using True by linarith
  show ?thesis
    unfolding ascii_lower_char_def[of "ascii_lower_char c"] Let_def using n by (rule if_not_P)
next
  case False
  have l: "ascii_lower_char c = c"
    unfolding ascii_lower_char_def Let_def using False by (rule if_not_P)
  show ?thesis by (simp add: l)
qed

lemma ascii_lower_idem: "ascii_lower (ascii_lower s) = ascii_lower s"
  by (simp add: ascii_lower_def ascii_lower_char_idem)

lemma example_python_lower_idem:
  "lower example_python (lower example_python s) = lower example_python s"
  by (simp add: example_python_def ascii_lower_idem)

lemma map_of_keyed:
  "x \<in> set xs \<Longrightarrow> map_of (map (\<lambda>v. (k v, f (k v))) xs) (k x) = Some (f (k x))"
  by (induction xs) auto

lemma var_lookup_lowered:
  assumes "vid \<in> set (Vars ip (Interpolator pattern))"
  shows "if py_bool (getattr knowledge_base (lower py vid))
         then map_of (var_bindings (fst (resolve py ip pattern knowledge_base))) (lower py vid)
              = getattr knowledge_base (lower py vid)
         else lower py vid \<in> set (snd (resolve py ip pattern knowledge_base))"
proof (cases "py_bool (getattr knowledge_base (lower py vid))")
  case True
  from assms have v: "vid \<in> set (scan_vars ip pattern)"
    by (simp add: Vars_def Interpolator_def)
  with True have "vid \<in> set (filter (\<lambda>v. \<not> var_missing py knowledge_base v)
      (remdups (scan_vars ip pattern)))"
    by (simp add: var_missing_def)
  from map_of_keyed[OF this, of "lower py" "\<lambda>n. the (getattr knowledge_base n)"]
  have "map_of (bound_vars py ip knowledge_base pattern) (lower py vid)
      = Some (the (getattr knowledge_base (lower py vid)))"
    by (simp add: bound_vars_def)
  moreover from True obtain x where "getattr knowledge_base (lower py vid) = Some x"
    by (cases "getattr knowledge_base (lower py vid)") auto
  ultimately show ?thesis using True by (simp add: resolve_eq)
next
  case False
  from assms have v: "vid \<in> set (scan_vars ip pattern)"
    by (simp add: Vars_def Interpolator_def)
  with False have "lower py vid \<in> missing_names py ip knowledge_base pattern"
    by (auto simp: missing_names_def var_missing_def)
  with False show ?thesis by (simp add: set_missing)
qed

lemma scope_lookup_lowered:
  assumes "scope_id \<in> set (Scopes ip (Interpolator pattern))"
  shows "filter (\<lambda>b. fst b = scope_id)
           (scope_bindings (fst (resolve py ip pattern knowledge_base)))
         = map (\<lambda>s. (scope_id,
                      struct_bindings py s (ScopeVars ip (Interpolator pattern) scope_id)))
             (filter (\<lambda>s. satisfies py s (ScopeVars ip (Interpolator pattern) scope_id))
                (case getattr knowledge_base (lower py scope_id) of
                   None \<Rightarrow> []
                 | Some v \<Rightarrow> if py_bool (Some v) then py_iter py v else []))"
proof -
  have sv: "ScopeVars ip (Interpolator pattern) scope_id = requested ip pattern scope_id"
    by (simp add: ScopeVars_def requested_def Interpolator_def)
  have mem: "scope_id \<in> set (remdups (scan_scopes ip pattern))"
    using assms by (simp add: Scopes_def Interpolator_def)
  have "filter (\<lambda>b. fst b = scope_id)
           (scope_bindings (fst (resolve py ip pattern knowledge_base)))
         = accepted py ip knowledge_base pattern scope_id"
    using filter_concat_accepted[OF distinct_remdups mem] by (simp add: resolve_eq)
  then show ?thesis by (simp add: sv accepted_def instances_def)
qed

lemma field_lookup_lowered:
  assumes "list_all (\<lambda>var_id. py_bool (getattr kb_struct (lower py var_id)))
             (ScopeVars ip self scope_id)"
    and "var_id \<in> set (ScopeVars ip self scope_id)"
  shows "map_of (struct_bindings py kb_struct (ScopeVars ip self scope_id)) var_id
         = getattr kb_struct (lower py var_id)"
  using struct_bindings_lookup[OF distinct_ScopeVars _ assms(2), of py kb_struct] assms(1)
  by (simp add: satisfies_def)

text \<open>
  C6. The code looks every identifier up under its lower-cased form, whatever the scanner
  delivers: a scalar under \<open>lower vid\<close> in the knowledge base, bound under that name or
  else reported missing; the group of a scope under \<open>lower scope_id\<close>; and a field under
  \<open>lower var_id\<close> in the record. With the scanner and the expander of the specification,
  and \<open>str.lower()\<close> leaving a lower-cased string as it is, two patterns that differ only in
  the case of placeholder bodies therefore have, for every knowledge base and either value
  of \<open>ignore_errors\<close>, the same outcome: the same strings in the same order, or the same
  error, and the same log.
\<close>

theorem placeholder_case_is_ignored:
  assumes "\<And>s. lower py (lower py s) = lower py s"
    and "map (normalise (lower py)) (tokens INTERPOLATED_REGEX p)
         = map (normalise (lower py)) (tokens INTERPOLATED_REGEX q)"
  shows "InterpolateKbAttributes py (spec_interpolation (lower py) group_text) p knowledge_base
           ignore_errors
         = InterpolateKbAttributes py (spec_interpolation (lower py) group_text) q knowledge_base
             ignore_errors
       \<and> (\<forall>vid \<in> set (Vars ip (Interpolator pattern)).
            if py_bool (getattr knowledge_base (lower py vid))
            then map_of (var_bindings (fst (resolve py ip pattern knowledge_base))) (lower py vid)
                 = getattr knowledge_base (lower py vid)
            else lower py vid \<in> set (snd (resolve py ip pattern knowledge_base)))
       \<and> (\<forall>scope_id \<in> set (Scopes ip (Interpolator pattern)).
            filter (\<lambda>b. fst b = scope_id)
              (scope_bindings (fst (resolve py ip pattern knowledge_base)))
            = map (\<lambda>s. (scope_id,
                         struct_bindings py s (ScopeVars ip (Interpolator pattern) scope_id)))
                (filter (\<lambda>s. satisfies py s (ScopeVars ip (Interpolator pattern) scope_id))
                   (case getattr knowledge_base (lower py scope_id) of
                      None \<Rightarrow> []
                    | Some v \<Rightarrow> if py_bool (Some v) then py_iter py v else [])))
       \<and> (\<forall>scope_id kb_struct.
            list_all (\<lambda>var_id. py_bool (getattr kb_struct (lower py var_id)))
              (ScopeVars ip (Interpolator pattern) scope_id) \<longrightarrow>
            (\<forall>var_id \<in> set (ScopeVars ip (Interpolator pattern) scope_id).
               map_of (struct_bindings py kb_struct (ScopeVars ip (Interpolator pattern) scope_id))
                 var_id
               = getattr kb_struct (lower py var_id)))"
proof -
  let ?ip = "spec_interpolation (lower py) group_text"
  note idem = assms(1)
  from assms(2) have r: "references (lower py) p = references (lower py) q"
    by (simp only: references_normalise)
  then have v: "Scan_vars (lower py) p = Scan_vars (lower py) q"
    and sc: "Scan_scopes (lower py) p = Scan_scopes (lower py) q"
    and sf: "Scan_scope_fields (lower py) p = Scan_scope_fields (lower py) q"
    by (auto simp: Scan_vars_def Scan_scopes_def Scan_scope_fields_def fun_eq_iff)
  have req: "requested ?ip p = requested ?ip q"
    by (simp add: requested_def sf fun_eq_iff)
  have acc: "accepted py ?ip knowledge_base p = accepted py ?ip knowledge_base q"
    by (simp add: accepted_def req fun_eq_iff)
  have sm: "scope_missing py ?ip knowledge_base p = scope_missing py ?ip knowledge_base q"
    by (simp add: scope_missing_def req fun_eq_iff)
  have bv: "bound_vars py ?ip knowledge_base p = bound_vars py ?ip knowledge_base q"
    by (simp add: bound_vars_def v)
  have mn: "missing_names py ?ip knowledge_base p = missing_names py ?ip knowledge_base q"
    by (simp add: missing_names_def v sc sm)
  have ms: "snd (resolve py ?ip p knowledge_base) = snd (resolve py ?ip q knowledge_base)"
    by (simp add: resolve_eq v sc sm)
  have same: "InterpolateKbAttributes py ?ip p knowledge_base ignore_errors
         = InterpolateKbAttributes py ?ip q knowledge_base ignore_errors"
  proof (cases "missing_names py ?ip knowledge_base p = {}")
    case False
    with mn ms show ?thesis by (simp add: InterpolateKbAttributes_eq)
  next
    case True
    with mn have q: "missing_names py ?ip knowledge_base q = {}" by simp
    have "Interpolate ?ip (fst (resolve py ?ip p knowledge_base))
        = Interpolate ?ip (fst (resolve py ?ip q knowledge_base))"
      unfolding Interpolate_spec_normalised[OF idem True] Interpolate_spec_normalised[OF idem q]
      by (simp add: assms(2) bv acc sc)
    with True q show ?thesis by (simp add: InterpolateKbAttributes_eq)
  qed
  from same var_lookup_lowered[of _ ip pattern knowledge_base py]
    scope_lookup_lowered[of _ ip pattern py knowledge_base]
    field_lookup_lowered[of _ py ip "Interpolator pattern"]
  show ?thesis by blast
qed

theorem placeholder_case_is_ignored_witness:
  "(\<forall>s. lower example_python (lower example_python s) = lower example_python s)
   \<and> map (normalise (lower example_python)) (tokens INTERPOLATED_REGEX ''%%OS%%: %%Users.HomeDir%%'')
     = map (normalise (lower example_python))
         (tokens INTERPOLATED_REGEX ''%%os%%: %%users.homedir%%'')
   \<and> InterpolateKbAttributes example_python (spec_interpolation (lower example_python)
         (\<lambda>g. ''[users]'')) ''%%OS%%: %%Users.HomeDir%%'' example_kb False
     = ([], Inr [''Windows: /home/alice'', ''Windows: /home/carol''])
   \<and> InterpolateKbAttributes example_python (spec_interpolation (lower example_python)
         (\<lambda>g. ''[users]'')) ''%%os%%: %%users.homedir%%'' example_kb False
     = ([], Inr [''Windows: /home/alice'', ''Windows: /home/carol''])
   \<and> var_bindings (fst (resolve example_python case_keeping_interpolation ''%%OS%%'' example_kb))
     = [(''os'', Str ''Windows'')]"
proof -
  have i: "\<And>s. lower example_python (lower example_python s) = lower example_python s"
    by (rule example_python_lower_idem)
  have n: "map (normalise (lower example_python))
       (tokens INTERPOLATED_REGEX ''%%OS%%: %%Users.HomeDir%%'')
     = map (normalise (lower example_python))
         (tokens INTERPOLATED_REGEX ''%%os%%: %%users.homedir%%'')"
    by code_simp
  have l: "InterpolateKbAttributes example_python (spec_interpolation (lower example_python)
         (\<lambda>g. ''[users]'')) ''%%os%%: %%users.homedir%%'' example_kb False
     = ([], Inr [''Windows: /home/alice'', ''Windows: /home/carol''])"
    by code_simp
  have b: "var_bindings (fst (resolve example_python case_keeping_interpolation ''%%OS%%''
         example_kb)) = [(''os'', Str ''Windows'')]"
    by code_simp
  note same = placeholder_case_is_ignored
    [OF i n, of "\<lambda>g. ''[users]''" example_kb False case_keeping_interpolation "''%%OS%%''"]
  from same have "InterpolateKbAttributes example_python (spec_interpolation
         (lower example_python) (\<lambda>g. ''[users]'')) ''%%OS%%: %%Users.HomeDir%%'' example_kb False
     = InterpolateKbAttributes example_python (spec_interpolation (lower example_python)
         (\<lambda>g. ''[users]'')) ''%%os%%: %%users.homedir%%'' example_kb False"
    by (rule conjunct1)
  also note l
  finally have u: "InterpolateKbAttributes example_python (spec_interpolation
         (lower example_python) (\<lambda>g. ''[users]'')) ''%%OS%%: %%Users.HomeDir%%'' example_kb False
     = ([], Inr [''Windows: /home/alice'', ''Windows: /home/carol''])" .
  from i have i': "\<forall>s. lower example_python (lower example_python s) = lower example_python s"
    by blast
  show ?thesis by (rule conjI[OF i' conjI[OF n conjI[OF u conjI[OF l b]]]])
qed

end
